theory Spec2Isabelle
  imports Main
begin

section \<open>JavaScript values used by the scripts\<close>

text \<open>
  A field that holds a string or is missing (\<open>undefined\<close>/\<open>null\<close>) is a
  \<open>string option\<close>. A character of a \<open>string\<close> stands for one UTF-16 code unit
  below 256. JavaScript truthiness of such a value: missing and the empty string are falsy.
\<close>

definition truthy :: "string option \<Rightarrow> bool" where
  "truthy v = (case v of None \<Rightarrow> False | Some s \<Rightarrow> s \<noteq> [])"

text \<open>\<open>a || b\<close>: the left operand when it is truthy, else the right operand as it is.\<close>

definition js_or :: "string option \<Rightarrow> string option \<Rightarrow> string option" where
  "js_or a b = (if truthy a then a else b)"

text \<open>
  An argument that should be a string but may be anything: \<open>NonString t\<close> is a value
  that is neither a string nor \<open>undefined\<close>/\<open>null\<close>, with truthiness \<open>t\<close>.
\<close>

datatype jsarg = Undefined | Null | NonString bool | Str string

text \<open>What a \<open>try\<close> block of the scripts can catch.\<close>

datatype exn = TypeError | LibraryError string

text \<open>
  Reading \<open>obj[key]\<close> on a plain object, one made by an object literal or by
  \<open>JSON.parse\<close>: the object's own property of that name when it has one, else the member
  of \<open>Object.prototype\<close> of that name (a function, or the prototype itself for
  \<open>__proto__\<close>: truthy, and without the fields of a record), else \<open>undefined\<close>. The
  own properties of the object are a map.
\<close>

definition object_prototype_members :: "string list" where
  "object_prototype_members =
     [''constructor'', ''__proto__'', ''hasOwnProperty'', ''isPrototypeOf'',
      ''propertyIsEnumerable'', ''toLocaleString'', ''toString'', ''valueOf'',
      ''__defineGetter__'', ''__defineSetter__'', ''__lookupGetter__'',
      ''__lookupSetter__'']"

datatype 'v property = OwnProperty 'v | InheritedMember | NoProperty

definition get_property :: "(string \<rightharpoonup> 'v) \<Rightarrow> string \<Rightarrow> 'v property" where
  "get_property obj key =
     (case obj key of
        Some v \<Rightarrow> OwnProperty v
      | None \<Rightarrow> if key \<in> set object_prototype_members then InheritedMember else NoProperty)"

section \<open>String methods and the regular expressions of the scripts\<close>

definition nl :: char where
  "nl = CHR 0x0A"

definition star :: char where
  "star = CHR ''*''"

text \<open>
  The white space of \<open>String.prototype.trim\<close> and of \<open>\s\<close> among the code units
  below 256: tab, line feed, vertical tab, form feed, carriage return, space, no-break space.
\<close>

definition isSpace :: "char \<Rightarrow> bool" where
  "isSpace c = (c \<in> set [CHR 0x09, CHR 0x0A, CHR 0x0B, CHR 0x0C, CHR 0x0D, CHR 0x20, CHR 0xA0])"

definition dropWhileEnd :: "('a \<Rightarrow> bool) \<Rightarrow> 'a list \<Rightarrow> 'a list" where
  "dropWhileEnd P xs = rev (dropWhile P (rev xs))"

definition trim :: "string \<Rightarrow> string" where
  "trim s = dropWhileEnd isSpace (dropWhile isSpace s)"


text \<open>\<open>s.replace(/c/g, r)\<close> for a single character \<open>c\<close>.\<close>

definition replace_all_char :: "char \<Rightarrow> string \<Rightarrow> string \<Rightarrow> string" where
  "replace_all_char c r s = concat (map (\<lambda>x. if x = c then r else [x]) s)"

text \<open>\<open>s.replace(/^\n+/, '')\<close>\<close>

definition strip_leading_newlines :: "string \<Rightarrow> string" where
  "strip_leading_newlines s = dropWhile (\<lambda>x. x = nl) s"

text \<open>
  \<open>s.replace(/\n+$/, r)\<close>: without the \<open>m\<close> flag \<open>$\<close> is the end of the string, and
  the leftmost match is the whole run of line feeds that ends there, if there is one.
\<close>

definition replace_trailing_newlines :: "string \<Rightarrow> string \<Rightarrow> string" where
  "replace_trailing_newlines r s =
     (if s \<noteq> [] \<and> last s = nl then dropWhileEnd (\<lambda>x. x = nl) s @ r else s)"

text \<open>\<open>/\n$/.test(s)\<close>\<close>

definition ends_with_newline :: "string \<Rightarrow> bool" where
  "ends_with_newline s = (s \<noteq> [] \<and> last s = nl)"

text \<open>
  \<open>s.replace(/\n{3,}/g, '\n\n')\<close>: the quantifier is greedy, so a match is a whole run of
  three or more line feeds; shorter runs stay.
\<close>

function collapse_newlines :: "string \<Rightarrow> string" where
  "collapse_newlines [] = []"
| "collapse_newlines (c # cs) =
     (if c = nl
      then (let run = c # takeWhile (\<lambda>x. x = nl) cs
            in (if 3 \<le> length run then [nl, nl] else run) @
               collapse_newlines (dropWhile (\<lambda>x. x = nl) cs))
      else c # collapse_newlines cs)"
  by pat_completeness auto
termination
  by (relation "measure length") (auto simp: less_Suc_eq_le length_dropWhile_le)

text \<open>\<open>s.split(sep)\<close> for a single character; the empty string splits into one empty piece.\<close>

fun split_on :: "char \<Rightarrow> string \<Rightarrow> string list" where
  "split_on sep [] = [[]]"
| "split_on sep (x # xs) =
     (if x = sep then [] # split_on sep xs
      else (case split_on sep xs of [] \<Rightarrow> [[x]] | y # ys \<Rightarrow> (x # y) # ys))"

text \<open>\<open>xs.join(sep)\<close>\<close>

fun js_join :: "string \<Rightarrow> string list \<Rightarrow> string" where
  "js_join sep [] = []"
| "js_join sep [x] = x"
| "js_join sep (x # y # ys) = x @ sep @ js_join sep (y # ys)"

text \<open>
  \<open>[...new Set(xs)]\<close>: a Set keeps its elements in insertion order and ignores the
  insertion of an element it holds already.
\<close>

definition set_add :: "'a list \<Rightarrow> 'a \<Rightarrow> 'a list" where
  "set_add s x = (if x \<in> set s then s else s @ [x])"

definition new_Set :: "'a list \<Rightarrow> 'a list" where
  "new_Set xs = foldl set_add [] xs"

section \<open>The converter (utils/html-to-markdown.js)\<close>

subsection \<open>The options given to Turndown by the constructor\<close>

record turndown_options =
  headingStyle :: string
  codeBlockStyle :: string
  bulletListMarker :: string
  strongDelimiter :: string
  emDelimiter :: string

definition converter_options :: turndown_options where
  "converter_options =
     \<lparr>headingStyle = ''atx'', codeBlockStyle = ''fenced'', bulletListMarker = ''-'',
      strongDelimiter = ''**'', emDelimiter = ''*''\<rparr>"

subsection \<open>The custom rules and the elements they match\<close>






subsection \<open>The replacement functions of the custom rules\<close>

text \<open>
  Turndown calls a rule's replacement with the rendered content of the node's children and
  the node. Of the node, a replacement below takes what it reads of it.
\<close>


text \<open>Rule \<open>listItem\<close> (filter \<open>'li'\<close>); \<open>nextSibling\<close> tells whether the node has one.\<close>

definition listItem_replacement :: "string \<Rightarrow> bool \<Rightarrow> turndown_options \<Rightarrow> string" where
  "listItem_replacement content' nextSibling options =
     (let content1 = strip_leading_newlines content';
          content2 = replace_trailing_newlines [nl] content1;
          content3 = replace_all_char nl (nl # ''    '') content2;
          prefix = bulletListMarker options @ '' ''
      in prefix @ content3 @
         (if nextSibling \<and> \<not> ends_with_newline content3 then [nl] else []))"

text \<open>Rule \<open>table\<close> (filter \<open>'table'\<close>).\<close>

definition table_replacement :: "string \<Rightarrow> string" where
  "table_replacement content' = [nl, nl] @ content' @ [nl, nl]"

text \<open>
  Rule \<open>tableRow\<close> (filter \<open>'tr'\<close>) reads of its node: \<open>parentNode.nodeName\<close>,
  \<open>parentNode.previousElementSibling?.nodeName\<close> (\<open>None\<close> for \<open>undefined\<close>), whether
  the node is \<open>parentNode.firstElementChild\<close>, and \<open>children.length\<close>.
\<close>

record row_node =
  parentName :: string
  parentPreviousElementSiblingName :: "string option"
  isFirstElementChild :: bool
  childrenLength :: nat

definition isHeaderRow :: "row_node \<Rightarrow> bool" where
  "isHeaderRow node =
     (parentName node = ''THEAD'' \<or>
      (parentName node = ''TBODY'' \<and>
       parentPreviousElementSiblingName node \<noteq> Some ''THEAD'' \<and>
       isFirstElementChild node))"

definition tableRow_replacement :: "string \<Rightarrow> row_node \<Rightarrow> string" where
  "tableRow_replacement content' node =
     (let row = ''|'' @ content';
          row' = (if isHeaderRow node
                  then (let cellCount = childrenLength node;
                            separator = js_join '' |'' (replicate cellCount '' --- '')
                        in row @ (nl # ''|'') @ separator @ '' |'')
                  else row)
      in row' @ [nl])"

text \<open>Rule \<open>tableCell\<close> (filter \<open>['th', 'td']\<close>).\<close>

definition tableCell_replacement :: "string \<Rightarrow> string" where
  "tableCell_replacement content' =
     (let cleanContent =
            trim (replace_all_char (CHR ''|'') [CHR 0x5C, CHR ''|'']
                   (replace_all_char nl '' '' content'))
      in '' '' @ cleanContent @ '' |'')"

subsection \<open>fixBoldSpacing\<close>

text \<open>
  The three expressions of \<open>fixBoldSpacing\<close> share a skeleton: \<open>**\<close>, characters other
  than \<open>*\<close>, \<open>**\<close>. Since nothing between the delimiters matches \<open>*\<close>, a match that
  starts at the head of \<open>s\<close> takes the whole run of characters other than \<open>*\<close> after
  the opening delimiter, and the closing delimiter must follow at once. \<open>bold_at s\<close> is
  that run and the rest of \<open>s\<close> after the closing delimiter.
\<close>

fun bold_at :: "string \<Rightarrow> (string \<times> string) option" where
  "bold_at (a # b # t) =
     (if a = star \<and> b = star
      then (case dropWhile (\<lambda>x. x \<noteq> star) t of
              c # d # rest \<Rightarrow>
                if d = star then Some (takeWhile (\<lambda>x. x \<noteq> star) t, rest) else None
            | _ \<Rightarrow> None)
      else None)"
| "bold_at _ = None"

text \<open>\<open>markdown.match(/\*\*[^*]*?\*\*/g) || []\<close>: the matches from left to right.\<close>

function boldParts :: "string \<Rightarrow> string list" where
  "boldParts [] = []"
| "boldParts (c # cs) =
     (case bold_at (c # cs) of
        Some (inner, rest) \<Rightarrow> (''**'' @ inner @ ''**'') # boldParts rest
      | None \<Rightarrow> boldParts cs)"
  by pat_completeness auto
termination
proof -
  have shorter: "length rest < length s" if "bold_at s = Some (inner, rest)"
    for s inner rest
  proof (cases s rule: bold_at.cases)
    case (1 a b t)
    with that length_dropWhile_le[of "\<lambda>x. x \<noteq> star" t] show ?thesis
      by (auto split: if_splits list.splits)
  qed (use that in simp_all)
  show ?thesis
    by (relation "measure length") (auto dest: shorter)
qed

text \<open>
  \<open>\s+[^*]*?\s+\<close> matches the run between the delimiters when the run starts and ends
  with white space and has at least two characters.
\<close>

definition padded :: "string \<Rightarrow> bool" where
  "padded r = (2 \<le> length r \<and> isSpace (hd r) \<and> isSpace (last r))"

text \<open>\<open>/\*\*\s+[^*]*?\s+\*\*/.test(s)\<close>: a match may start anywhere in \<open>s\<close>.\<close>

fun test_bad_spacing :: "string \<Rightarrow> bool" where
  "test_bad_spacing [] = False"
| "test_bad_spacing (c # cs) =
     (case bold_at (c # cs) of
        Some (inner, rest) \<Rightarrow> padded inner \<or> test_bad_spacing cs
      | None \<Rightarrow> test_bad_spacing cs)"

text \<open>
  The group of \<open>\s+([^*]+?)\s+\<close> on the run between the delimiters. The first \<open>\s+\<close> is
  greedy and the group is lazy: when the run has a character that is not white space, the
  group is the run without its leading and trailing white space; when the run is white
  space only, backtracking leaves the group the last but one character. No match when the
  run is shorter than three characters or does not start and end with white space.
\<close>

definition padded_group :: "string \<Rightarrow> string option" where
  "padded_group r =
     (if 3 \<le> length r \<and> isSpace (hd r) \<and> isSpace (last r)
      then Some (if list_all isSpace r then [r ! (length r - 2)] else trim r)
      else None)"

text \<open>\<open>markdown.replace(/\*\*\s+([^*]+?)\s+\*\*/g, '**$1**')\<close>\<close>

function replace_padded :: "string \<Rightarrow> string" where
  "replace_padded [] = []"
| "replace_padded (c # cs) =
     (case bold_at (c # cs) of
        Some (inner, rest) \<Rightarrow>
          (case padded_group inner of
             Some captured \<Rightarrow> ''**'' @ captured @ ''**'' @ replace_padded rest
           | None \<Rightarrow> c # replace_padded cs)
      | None \<Rightarrow> c # replace_padded cs)"
  by pat_completeness auto
termination
proof -
  have shorter: "length rest < length s" if "bold_at s = Some (inner, rest)"
    for s inner rest
  proof (cases s rule: bold_at.cases)
    case (1 a b t)
    with that length_dropWhile_le[of "\<lambda>x. x \<noteq> star" t] show ?thesis
      by (auto split: if_splits list.splits)
  qed (use that in simp_all)
  show ?thesis
    by (relation "measure length") (auto dest: shorter)
qed

definition fixBoldSpacing :: "string \<Rightarrow> string" where
  "fixBoldSpacing markdown =
     (let boldParts' = boldParts markdown;
          hasBadSpacing = list_ex test_bad_spacing boldParts'
      in if \<not> hasBadSpacing then markdown else replace_padded markdown)"

subsection \<open>generateFooter\<close>

text \<open>
  The footer of the source, its characters outside ASCII written as the bytes of their
  UTF-8 encoding. The converter only appends it.
\<close>

definition generateFooter :: string where
  "generateFooter =
     ''---'' @
     [CHR 0x0A, CHR 0x0A] @
     ''## '' @
     [CHR 0xF0, CHR 0x9F, CHR 0x8C, CHR 0x9F] @
     '' '' @
     [CHR 0xE3, CHR 0x81, CHR 0x8A, CHR 0xE7, CHR 0x9F, CHR 0xA5, CHR 0xE3, CHR 0x82,
      CHR 0x89, CHR 0xE3, CHR 0x81, CHR 0x9B, CHR 0x0A, CHR 0x0A, CHR 0xE3, CHR 0x81,
      CHR 0x93, CHR 0xE3, CHR 0x81, CHR 0xAE, CHR 0xE8, CHR 0xA8, CHR 0x98, CHR 0xE4,
      CHR 0xBA, CHR 0x8B, CHR 0xE3, CHR 0x81, CHR 0x8C, CHR 0xE5, CHR 0xBD, CHR 0xB9,
      CHR 0xE3, CHR 0x81, CHR 0xAB, CHR 0xE7, CHR 0xAB, CHR 0x8B, CHR 0xE3, CHR 0x81,
      CHR 0xA3, CHR 0xE3, CHR 0x81, CHR 0x9F, CHR 0xE3, CHR 0x82, CHR 0x89, CHR 0xE3,
      CHR 0x80, CHR 0x81, CHR 0xE3, CHR 0x81, CHR 0x9C, CHR 0xE3, CHR 0x81, CHR 0xB2,
      CHR 0xE3, CHR 0x83, CHR 0x95, CHR 0xE3, CHR 0x82, CHR 0xA9, CHR 0xE3, CHR 0x83,
      CHR 0xAD, CHR 0xE3, CHR 0x83, CHR 0xBC, CHR 0xE3, CHR 0x82, CHR 0x84, CHR 0xE3,
      CHR 0x81, CHR 0x84, CHR 0xE3, CHR 0x81, CHR 0x84, CHR 0xE3, CHR 0x81, CHR 0xAD,
      CHR 0xE3, CHR 0x82, CHR 0x92, CHR 0xE3, CHR 0x81, CHR 0x8A, CHR 0xE9, CHR 0xA1,
      CHR 0x98, CHR 0xE3, CHR 0x81, CHR 0x84, CHR 0xE3, CHR 0x81, CHR 0x97, CHR 0xE3,
      CHR 0x81, CHR 0xBE, CHR 0xE3, CHR 0x81, CHR 0x99, CHR 0xEF, CHR 0xBC, CHR 0x81,
      CHR 0x0A, CHR 0x0A] @
     ''**'' @
     [CHR 0xF0, CHR 0x9F, CHR 0x90, CHR 0xA6] @
     '' X**: [@nabe_AI_dev](https://x.com/nabe_AI_dev)'' @
     [CHR 0x0A] @
     ''AI'' @
     [CHR 0xE9, CHR 0x96, CHR 0x8B, CHR 0xE7, CHR 0x99, CHR 0xBA, CHR 0xE3, CHR 0x81,
      CHR 0xAE, CHR 0xE6, CHR 0x9C, CHR 0x80, CHR 0xE6, CHR 0x96, CHR 0xB0, CHR 0xE6,
      CHR 0x83, CHR 0x85, CHR 0xE5, CHR 0xA0, CHR 0xB1, CHR 0xE3, CHR 0x82, CHR 0x84,
      CHR 0xE6, CHR 0x8A, CHR 0x80, CHR 0xE8, CHR 0xA1, CHR 0x93] @
     ''Tips'' @
     [CHR 0xE3, CHR 0x80, CHR 0x81, CHR 0xE9, CHR 0x96, CHR 0x8B, CHR 0xE7, CHR 0x99,
      CHR 0xBA, CHR 0xE3, CHR 0x81, CHR 0xAE, CHR 0xE9, CHR 0x80, CHR 0xB2, CHR 0xE6,
      CHR 0x8D, CHR 0x97, CHR 0xE3, CHR 0x81, CHR 0xAA, CHR 0xE3, CHR 0x81, CHR 0xA9,
      CHR 0xE3, CHR 0x82, CHR 0x92, CHR 0xE5, CHR 0xAE, CHR 0x9A, CHR 0xE6, CHR 0x9C,
      CHR 0x9F, CHR 0xE7, CHR 0x9A, CHR 0x84, CHR 0xE3, CHR 0x81, CHR 0xAB, CHR 0xE3,
      CHR 0x83, CHR 0x84, CHR 0xE3, CHR 0x82, CHR 0xA4, CHR 0xE3, CHR 0x83, CHR 0xBC,
      CHR 0xE3, CHR 0x83, CHR 0x88, CHR 0xE3, CHR 0x81, CHR 0x97, CHR 0xE3, CHR 0x81,
      CHR 0xA6, CHR 0xE3, CHR 0x81, CHR 0x84, CHR 0xE3, CHR 0x81, CHR 0xBE, CHR 0xE3,
      CHR 0x81, CHR 0x99, CHR 0xE3, CHR 0x80, CHR 0x82, CHR 0x0A, CHR 0x0A] @
     ''**'' @
     [CHR 0xF0, CHR 0x9F, CHR 0x93, CHR 0x9D] @
     '' '' @
     [CHR 0xE3, CHR 0x83, CHR 0x96, CHR 0xE3, CHR 0x83, CHR 0xAD, CHR 0xE3, CHR 0x82,
      CHR 0xB0] @
     ''**: [AI Developer Blog](https://ai-developer-blog.vercel.app/)'' @
     [CHR 0x0A] @
     ''AI'' @
     [CHR 0xE3, CHR 0x83, CHR 0x84, CHR 0xE3, CHR 0x83, CHR 0xBC, CHR 0xE3, CHR 0x83,
      CHR 0xAB, CHR 0xE9, CHR 0x96, CHR 0x8B, CHR 0xE7, CHR 0x99, CHR 0xBA, CHR 0xE3,
      CHR 0x81, CHR 0xAB, CHR 0xE9, CHR 0x96, CHR 0xA2, CHR 0xE3, CHR 0x81, CHR 0x99,
      CHR 0xE3, CHR 0x82, CHR 0x8B, CHR 0xE8, CHR 0xA9, CHR 0xB3, CHR 0xE7, CHR 0xB4,
      CHR 0xB0, CHR 0xE3, CHR 0x81, CHR 0xAA, CHR 0xE8, CHR 0xA8, CHR 0x98, CHR 0xE4,
      CHR 0xBA, CHR 0x8B, CHR 0xE3, CHR 0x82, CHR 0x84, CHR 0xE5, CHR 0xAE, CHR 0x9F,
      CHR 0xE8, CHR 0xA3, CHR 0x85, CHR 0xE4, CHR 0xBA, CHR 0x8B, CHR 0xE4, CHR 0xBE,
      CHR 0x8B, CHR 0xE3, CHR 0x82, CHR 0x92, CHR 0xE5, CHR 0x85, CHR 0xAC, CHR 0xE9,
      CHR 0x96, CHR 0x8B, CHR 0xE4, CHR 0xB8, CHR 0xAD, CHR 0xE3, CHR 0x81, CHR 0xA7,
      CHR 0xE3, CHR 0x81, CHR 0x99, CHR 0xE3, CHR 0x80, CHR 0x82]"

subsection \<open>convert\<close>

text \<open>
  \<open>convert(html, options)\<close> reads \<open>options.excerpt\<close> only; the callers also pass
  \<open>originalUrl\<close> and \<open>originalTitle\<close>.
\<close>

record convert_options =
  opt_excerpt :: jsarg
  originalUrl :: "string option"
  originalTitle :: string

text \<open>
  \<open>options.excerpt && options.excerpt.trim()\<close> as a condition: a truthy value that is not
  a string has no \<open>trim\<close>, and the call throws a TypeError.
\<close>

definition excerpt_given :: "jsarg \<Rightarrow> exn + string option" where
  "excerpt_given x =
     (case x of
        Undefined \<Rightarrow> Inr None
      | Null \<Rightarrow> Inr None
      | NonString t \<Rightarrow> (if t then Inl TypeError else Inr None)
      | Str e \<Rightarrow> Inr (if e \<noteq> [] \<and> trim e \<noteq> [] then Some e else None))"

text \<open>
  The body of the \<open>try\<close> block. Turndown is the parameter \<open>turndown\<close>: the Markdown of
  a markup string, or what it throws.
\<close>

definition convert_try ::
  "(string \<Rightarrow> exn + string) \<Rightarrow> string \<Rightarrow> convert_options \<Rightarrow> exn + string" where
  "convert_try turndown html options =
     (case turndown html of
        Inl err \<Rightarrow> Inl err
      | Inr markdown \<Rightarrow>
          (let markdown1 = fixBoldSpacing markdown;
               markdown2 = replace_trailing_newlines []
                             (strip_leading_newlines (collapse_newlines markdown1))
           in (case excerpt_given (opt_excerpt options) of
                 Inl err \<Rightarrow> Inl err
               | Inr None \<Rightarrow> Inr (markdown2 @ [nl, nl] @ generateFooter)
               | Inr (Some e) \<Rightarrow>
                   (case turndown e of
                      Inl err \<Rightarrow> Inl err
                    | Inr excerptMarkdown \<Rightarrow>
                        (let markdown3 =
                               (if excerptMarkdown \<noteq> []
                                then excerptMarkdown @ [nl, nl] @ markdown2
                                else markdown2)
                         in Inr (markdown3 @ [nl, nl] @ generateFooter))))))"

definition convert ::
  "(string \<Rightarrow> exn + string) \<Rightarrow> jsarg \<Rightarrow> convert_options \<Rightarrow> exn + string" where
  "convert turndown html options =
     (case html of
        Str s \<Rightarrow>
          (if s = [] then Inr []
           else (case convert_try turndown s options of
                   Inl err \<Rightarrow> Inr s
                 | Inr markdown \<Rightarrow> Inr markdown))
      | _ \<Rightarrow> Inr [])"

subsection \<open>processTags\<close>

text \<open>
  One entry of \<open>categories\<close>: a string, an object with optional \<open>name\<close> and \<open>title\<close>
  fields (in this order), or \<open>null\<close>/\<open>undefined\<close>.
\<close>

datatype category = CString string | CObject "string option" "string option" | CNullish

datatype categories = CatUndefined | CatArray "category list" | CatSingle category

record qiita_tag =
  name :: string

text \<open>The chain of \<open>if\<close>s that pushes at most one tag for a category.\<close>

fun category_tags :: "category \<Rightarrow> string list" where
  "category_tags (CString s) = (if s \<noteq> [] then [s] else [])"
| "category_tags (CObject name' title') =
     (if truthy name' then [the name']
      else if truthy title' then [the title'] else [])"
| "category_tags CNullish = []"

definition tag_kept :: "string \<Rightarrow> bool" where
  "tag_kept tag =
     (tag \<noteq> [] \<and> (let trimmed = trim tag in 0 < length trimmed \<and> length trimmed \<le> 20))"

definition processTags :: "categories \<Rightarrow> string option \<Rightarrow> nat \<Rightarrow> qiita_tag list" where
  "processTags categories' tags' maxTags =
     (let allTags1 =
            (case categories' of
               CatUndefined \<Rightarrow> []
             | CatArray cs \<Rightarrow> concat (map category_tags cs)
             | CatSingle c \<Rightarrow> category_tags c);
          allTags2 =
            (case tags' of
               None \<Rightarrow> allTags1
             | Some t \<Rightarrow>
                 (if t \<noteq> []
                  then allTags1 @
                       filter (\<lambda>tag. 0 < length tag) (map trim (split_on (CHR '','') t))
                  else allTags1));
          uniqueTags = take maxTags (filter tag_kept (new_Set allTags2));
          uniqueTags' = (if length uniqueTags = 0 then [''AI''] else uniqueTags)
      in map (\<lambda>tag. \<lparr>name = trim tag\<rparr>) uniqueTags')"

section \<open>The batch (sync-microcms-to-qiita.js)\<close>

record article =
  article_id :: string
  title :: string
  content :: jsarg
  excerpt :: jsarg
  category :: categories
  tags :: "string option"
  publishedAt :: "string option"
  updatedAt :: "string option"
  revisedAt :: "string option"

text \<open>One entry of \<open>history.articles\<close>, and the history file.\<close>

record syncRecord =
  qiitaId :: string
  rec_title :: string
  lastSyncedAt :: string
  microCMSUpdatedAt :: "string option"

record history =
  lastSyncTime :: "string option"
  articles :: "string \<rightharpoonup> syncRecord"

datatype action = Create | Update | Skip

record syncDecision =
  shouldSync :: bool
  action :: action
  decision_qiitaId :: "string option"

text \<open>The request body sent to Qiita, and the \<open>response.data\<close> that comes back.\<close>

record payload =
  payload_title :: string
  body :: string
  payload_tags :: "qiita_tag list"
  payload_private :: bool

record qiitaItem =
  item_id :: string

text \<open>
  What the class takes from outside: the date parser of the runtime (the milliseconds of a
  date string, \<open>None\<close> for an invalid date), Turndown, the \<open>contents\<close> of the microCMS
  response or the error of the request, the two Qiita requests, the clock (\<open>now k\<close> is
  its \<open>k\<close>-th reading in a run) and \<open>ORIGINAL_SITE_URL\<close>.
\<close>

record env =
  parseDate :: "string \<Rightarrow> int option"
  turndown :: "string \<Rightarrow> exn + string"
  get_contents :: "exn + article list"
  post_item :: "payload \<Rightarrow> exn + qiitaItem"
  patch_item :: "string option \<Rightarrow> payload \<Rightarrow> exn + qiitaItem"
  now :: "nat \<Rightarrow> string"
  originalSiteUrl :: "string option"

text \<open>\<open>s.includes(sub)\<close>\<close>

fun str_includes :: "string \<Rightarrow> string \<Rightarrow> bool" where
  "str_includes [] sub = (sub = [])"
| "str_includes (c # cs) sub = (take (length sub) (c # cs) = sub \<or> str_includes cs sub)"

definition getMicroCMSArticles :: "env \<Rightarrow> exn + article list" where
  "getMicroCMSArticles E =
     (case get_contents E of
        Inl err \<Rightarrow> Inl err
      | Inr contents \<Rightarrow>
          Inr (filter (\<lambda>a. case publishedAt a of
                              None \<Rightarrow> False
                            | Some p \<Rightarrow> p \<noteq> [] \<and> \<not> str_includes p ''draft'') contents))"

text \<open>
  \<open>new Date(a) > new Date(b)\<close>: the number of an invalid date is NaN, which compares
  false with everything; \<open>new Date(undefined)\<close> is invalid.
\<close>

definition date_gt :: "(string \<Rightarrow> int option) \<Rightarrow> string option \<Rightarrow> string option \<Rightarrow> bool" where
  "date_gt D a b =
     (case (Option.bind a D, Option.bind b D) of
        (Some x, Some y) \<Rightarrow> y < x
      | _ \<Rightarrow> False)"

text \<open>\<open>article.updatedAt || article.revisedAt || article.publishedAt\<close>\<close>

definition microCMSUpdatedAt_of :: "article \<Rightarrow> string option" where
  "microCMSUpdatedAt_of a = js_or (js_or (updatedAt a) (revisedAt a)) (publishedAt a)"

text \<open>
  \<open>shouldSyncArticle(article, history)\<close>, with the history passed through: the function
  only reads \<open>history.articles[article.id]\<close>. That is a property read on a plain object:
  for an id without a record that names a member of \<open>Object.prototype\<close>,
  \<open>articleHistory\<close> is that member, which is truthy and whose \<open>microCMSUpdatedAt\<close>
  and \<open>qiitaId\<close> are \<open>undefined\<close>.
\<close>

definition shouldSyncArticle ::
  "(string \<Rightarrow> int option) \<Rightarrow> article \<Rightarrow> history \<Rightarrow> syncDecision \<times> history" where
  "shouldSyncArticle D a h =
     (case get_property (articles h) (article_id a) of
        NoProperty \<Rightarrow> (\<lparr>shouldSync = True, action = Create, decision_qiitaId = None\<rparr>, h)
      | articleHistory \<Rightarrow>
          (let microCMSUpdatedAt' = microCMSUpdatedAt_of a;
               lastSyncedUpdatedAt =
                 (case articleHistory of
                    OwnProperty r \<Rightarrow> microCMSUpdatedAt r
                  | _ \<Rightarrow> None)
           in if truthy microCMSUpdatedAt' \<and> truthy lastSyncedUpdatedAt \<and>
                 date_gt D microCMSUpdatedAt' lastSyncedUpdatedAt
              then (\<lparr>shouldSync = True, action = Update,
                     decision_qiitaId =
                       (case articleHistory of
                          OwnProperty r \<Rightarrow> Some (qiitaId r)
                        | _ \<Rightarrow> None)\<rparr>, h)
              else (\<lparr>shouldSync = False, action = Skip, decision_qiitaId = None\<rparr>, h)))"

text \<open>The payload that \<open>createQiitaArticle\<close> and \<open>updateQiitaArticle\<close> both build.\<close>

definition build_payload :: "env \<Rightarrow> article \<Rightarrow> exn + payload" where
  "build_payload E a =
     (let tags' = processTags (category a) (tags a) 5;
          originalUrl' =
            (if truthy (originalSiteUrl E)
             then Some (the (originalSiteUrl E) @ ''/articles/'' @ article_id a)
             else None)
      in (case convert (turndown E) (content a)
                 \<lparr>opt_excerpt = excerpt a, originalUrl = originalUrl',
                  originalTitle = title a\<rparr> of
            Inl err \<Rightarrow> Inl err
          | Inr body' \<Rightarrow>
              Inr \<lparr>payload_title = title a, body = body', payload_tags = tags',
                   payload_private = False\<rparr>))"

definition createQiitaArticle :: "env \<Rightarrow> article \<Rightarrow> exn + qiitaItem" where
  "createQiitaArticle E a =
     (case build_payload E a of
        Inl err \<Rightarrow> Inl err
      | Inr payload' \<Rightarrow> post_item E payload')"

definition updateQiitaArticle :: "env \<Rightarrow> article \<Rightarrow> string option \<Rightarrow> exn + qiitaItem" where
  "updateQiitaArticle E a qiitaId' =
     (case build_payload E a of
        Inl err \<Rightarrow> Inl err
      | Inr payload' \<Rightarrow> patch_item E qiitaId' payload')"

text \<open>The variables of the loop of \<open>syncArticles\<close>.\<close>

record syncState =
  st_history :: history
  syncCount :: nat
  errorCount :: nat

text \<open>
  The request of one iteration, chosen by the decision. With an action that is neither
  create nor update \<open>qiitaArticle\<close> stays undefined and reading its \<open>id\<close> throws.
\<close>

definition publish :: "env \<Rightarrow> article \<Rightarrow> syncDecision \<Rightarrow> exn + qiitaItem" where
  "publish E a d =
     (if action d = Create then createQiitaArticle E a
      else if action d = Update then updateQiitaArticle E a (decision_qiitaId d)
      else Inl TypeError)"

text \<open>One iteration of the loop: the \<open>try\<close> block and its \<open>catch\<close>.\<close>

definition syncArticles_body :: "env \<Rightarrow> article \<Rightarrow> syncState \<Rightarrow> syncState" where
  "syncArticles_body E a st =
     (case shouldSyncArticle (parseDate E) a (st_history st) of
        (syncDecision, h) \<Rightarrow>
          if \<not> shouldSync syncDecision then st\<lparr>st_history := h\<rparr>
          else (case publish E a syncDecision of
                  Inl err \<Rightarrow> st\<lparr>st_history := h, errorCount := errorCount st + 1\<rparr>
                | Inr qiitaArticle \<Rightarrow>
                    st\<lparr>st_history :=
                         h\<lparr>articles := (articles h)(article_id a \<mapsto>
                              \<lparr>qiitaId = item_id qiitaArticle, rec_title = title a,
                               lastSyncedAt = now E (syncCount st),
                               microCMSUpdatedAt = microCMSUpdatedAt_of a\<rparr>)\<rparr>,
                       syncCount := syncCount st + 1\<rparr>))"

fun syncArticles_loop :: "env \<Rightarrow> article list \<Rightarrow> syncState \<Rightarrow> syncState" where
  "syncArticles_loop E [] st = st"
| "syncArticles_loop E (a # as) st = syncArticles_loop E as (syncArticles_body E a st)"

text \<open>
  A run: the history given to \<open>saveSyncHistory\<close> (\<open>None\<close> when the run does not reach
  it), the two counters of the summary and the exit status of the process.
\<close>

record run_result =
  saved :: "history option"
  synced :: nat
  errors :: nat
  exit_status :: nat

definition maxArticles :: nat where
  "maxArticles = 50"

definition syncArticles :: "env \<Rightarrow> history \<Rightarrow> run_result" where
  "syncArticles E loaded =
     (case getMicroCMSArticles E of
        Inl err \<Rightarrow> \<lparr>saved = None, synced = 0, errors = 0, exit_status = 1\<rparr>
      | Inr articles' \<Rightarrow>
          (let st = syncArticles_loop E (take maxArticles articles')
                      \<lparr>st_history = loaded, syncCount = 0, errorCount = 0\<rparr>;
               history' = (st_history st)\<lparr>lastSyncTime := Some (now E (syncCount st))\<rparr>
           in \<lparr>saved = Some history', synced = syncCount st, errors = errorCount st,
               exit_status = (if 0 < errorCount st then 1 else 0)\<rparr>))"

section \<open>The words of the specification\<close>

text \<open>
  The effective timestamp: the first present value among \<open>updatedAt\<close>, \<open>revisedAt\<close>,
  \<open>publishedAt\<close>; \<open>None\<close> when none is present.
\<close>

definition first_present :: "string option list \<Rightarrow> string option" where
  "first_present vs = (case filter truthy vs of [] \<Rightarrow> None | v # _ \<Rightarrow> v)"

definition effective_timestamp :: "article \<Rightarrow> string option" where
  "effective_timestamp a = first_present [updatedAt a, revisedAt a, publishedAt a]"

text \<open>
  The tag normalizer as the specification words it. Flattening is taken as the code does
  it; the candidates of \<open>rawTags\<close> are the trimmed segments between commas; duplicates go
  by exact equality, first occurrence kept; a candidate is discarded when it is empty or
  longer than \<open>maxTagLength\<close>; the first \<open>maxTags\<close> survivors are the tags, or the
  default tag when there is none.
\<close>

fun first_occurrences :: "'a list \<Rightarrow> 'a list" where
  "first_occurrences [] = []"
| "first_occurrences (x # xs) = x # first_occurrences (filter (\<lambda>y. y \<noteq> x) xs)"

definition flatten_categories :: "categories \<Rightarrow> string list" where
  "flatten_categories cs =
     (case cs of
        CatUndefined \<Rightarrow> []
      | CatArray xs \<Rightarrow> concat (map category_tags xs)
      | CatSingle c \<Rightarrow> category_tags c)"

definition spec_normalize :: "categories \<Rightarrow> string \<Rightarrow> nat \<Rightarrow> nat \<Rightarrow> qiita_tag list" where
  "spec_normalize cs rawTags maxTags maxTagLength =
     (let candidates = flatten_categories cs @ map trim (split_on (CHR '','') rawTags);
          survivors = take maxTags
                        (filter (\<lambda>t. t \<noteq> [] \<and> length t \<le> maxTagLength)
                           (first_occurrences candidates))
      in map (\<lambda>t. \<lparr>name = t\<rparr>) (if survivors = [] then [''AI''] else survivors))"

text \<open>
  The separator line of a header row as the specification words it, \<open>|---|---|...\<close> with
  one segment per cell, and the header row followed by it.
\<close>

definition spec_separator :: "nat \<Rightarrow> string" where
  "spec_separator n = ''|'' @ concat (replicate n ''---|'')"

definition spec_header_row :: "string \<Rightarrow> nat \<Rightarrow> string" where
  "spec_header_row content' n = ''|'' @ content' @ [nl] @ spec_separator n @ [nl]"

text \<open>
  The list item as the specification words it: leading and trailing blank lines stripped,
  every line break left re-indented, bullet marker and a space in front, a line break behind
  when a sibling follows and the content does not end in one.
\<close>

definition spec_listItem :: "string \<Rightarrow> bool \<Rightarrow> turndown_options \<Rightarrow> string" where
  "spec_listItem content' followed options =
     (let stripped = dropWhileEnd (\<lambda>x. x = nl) (dropWhile (\<lambda>x. x = nl) content');
          indented = replace_all_char nl (nl # ''    '') stripped
      in bulletListMarker options @ '' '' @ indented @
         (if followed \<and> \<not> ends_with_newline indented then [nl] else []))"

text \<open>
  The conversion of a non-empty document as the specification words it, for an engine
  \<open>transduce\<close> that does not throw: the rendering with its runs of three or more line
  breaks collapsed to two and without leading and trailing line breaks; in front of it the
  transduction of the excerpt and a blank line when the excerpt is not blank; behind it a
  blank line and the footer.
\<close>

definition spec_convert :: "(string \<Rightarrow> string) \<Rightarrow> string \<Rightarrow> string \<Rightarrow> string" where
  "spec_convert transduce html excerpt' =
     (let normalized = dropWhileEnd (\<lambda>x. x = nl)
                         (dropWhile (\<lambda>x. x = nl) (collapse_newlines (transduce html)));
          with_excerpt = (if trim excerpt' \<noteq> []
                          then transduce excerpt' @ [nl, nl] @ normalized
                          else normalized)
      in with_excerpt @ [nl, nl] @ generateFooter)"

text \<open>A run of three or more line breaks somewhere in a string.\<close>

fun has_run3 :: "string \<Rightarrow> bool" where
  "has_run3 (a # b # c # s) = ((a = nl \<and> b = nl \<and> c = nl) \<or> has_run3 (b # c # s))"
| "has_run3 _ = False"

text \<open>
  What a run does with an item, judged against the history \<open>h\<close>: nothing (\<open>None\<close>) when
  the decision is skip, else the outcome of the publish request. A publish fails when the
  outcome is an error, and succeeds when it is the item Qiita returns.
\<close>

definition publish_result :: "env \<Rightarrow> history \<Rightarrow> article \<Rightarrow> (exn + qiitaItem) option" where
  "publish_result E h a =
     (case shouldSyncArticle (parseDate E) a h of
        (d, _) \<Rightarrow> if shouldSync d then Some (publish E a d) else None)"

definition publish_fails :: "env \<Rightarrow> history \<Rightarrow> article \<Rightarrow> bool" where
  "publish_fails E h a = (case publish_result E h a of Some (Inl err) \<Rightarrow> True | _ \<Rightarrow> False)"

definition publish_succeeds :: "env \<Rightarrow> history \<Rightarrow> article \<Rightarrow> bool" where
  "publish_succeeds E h a = (case publish_result E h a of Some (Inr q) \<Rightarrow> True | _ \<Rightarrow> False)"

section \<open>Properties of the string methods\<close>

lemma dropWhileEnd_decomp:
  "\<exists>r. d = dropWhileEnd P d @ r \<and> (\<forall>x\<in>set r. P x)"
proof -
  have "rev d = takeWhile P (rev d) @ dropWhile P (rev d)" by simp
  then have "d = rev (dropWhile P (rev d)) @ rev (takeWhile P (rev d))"
    by (metis rev_append rev_rev_ident)
  moreover have "\<forall>x\<in>set (rev (takeWhile P (rev d))). P x"
    by (auto dest: set_takeWhileD)
  ultimately show ?thesis unfolding dropWhileEnd_def by blast
qed

lemma trim_decomp:
  "\<exists>l r. c = l @ trim c @ r \<and> (\<forall>x\<in>set l. isSpace x) \<and> (\<forall>x\<in>set r. isSpace x)"
proof -
  obtain r where r: "dropWhile isSpace c = trim c @ r" "\<forall>x\<in>set r. isSpace x"
    using dropWhileEnd_decomp[of "dropWhile isSpace c" isSpace] unfolding trim_def by blast
  have "c = takeWhile isSpace c @ trim c @ r"
    using r(1) takeWhile_dropWhile_id[of isSpace c] by simp
  moreover have "\<forall>x\<in>set (takeWhile isSpace c). isSpace x"
    by (auto dest: set_takeWhileD)
  ultimately show ?thesis using r(2) by blast
qed

lemma dropWhileEnd_last: "dropWhileEnd P d \<noteq> [] \<Longrightarrow> \<not> P (last (dropWhileEnd P d))"
  unfolding dropWhileEnd_def by (simp add: last_rev hd_dropWhile)

lemma dropWhileEnd_hd: "dropWhileEnd P d \<noteq> [] \<Longrightarrow> hd (dropWhileEnd P d) = hd d"
proof -
  assume n: "dropWhileEnd P d \<noteq> []"
  obtain r where r: "d = dropWhileEnd P d @ r" using dropWhileEnd_decomp[of d P] by blast
  show ?thesis using n r by (metis hd_append2)
qed

lemma trim_ends:
  assumes "trim c \<noteq> []"
  shows "\<not> isSpace (hd (trim c))" and "\<not> isSpace (last (trim c))"
proof -
  have d: "dropWhile isSpace c \<noteq> []"
    using assms by (metis trim_def dropWhileEnd_def dropWhile.simps(1) rev.simps(1))
  have "hd (trim c) = hd (dropWhile isSpace c)"
    using assms unfolding trim_def by (rule dropWhileEnd_hd)
  then show "\<not> isSpace (hd (trim c))" using d by (simp add: hd_dropWhile)
  show "\<not> isSpace (last (trim c))"
    using assms unfolding trim_def by (rule dropWhileEnd_last)
qed

lemma trim_subset: "set (trim c) \<subseteq> set c"
  using trim_decomp[of c] by (metis Un_iff set_append subsetI)

lemma dropWhileEnd_id: "\<not> (s \<noteq> [] \<and> P (last s)) \<Longrightarrow> dropWhileEnd P s = s"
proof (cases s rule: rev_cases)
  case Nil
  then show ?thesis by (simp add: dropWhileEnd_def)
next
  case (snoc xs x)
  assume "\<not> (s \<noteq> [] \<and> P (last s))"
  with snoc show ?thesis by (simp add: dropWhileEnd_def)
qed

lemma trim_nonempty: "trim e \<noteq> [] \<Longrightarrow> e \<noteq> []"
  by (auto simp: trim_def dropWhileEnd_def)


lemma trim_pad:
  assumes "\<forall>x\<in>set l. isSpace x" "\<forall>x\<in>set r. isSpace x"
    and "t \<noteq> []" "\<not> isSpace (hd t)" "\<not> isSpace (last t)"
  shows "trim (l @ t @ r) = t"
proof -
  have "dropWhile isSpace (l @ t @ r) = dropWhile isSpace (t @ r)"
    by (rule dropWhile_append2) (use assms(1) in auto)
  also have "\<dots> = t @ r" using assms(3,4) by (cases t) simp_all
  finally have d: "dropWhile isSpace (l @ t @ r) = t @ r" .
  have "dropWhile isSpace (rev r @ rev t) = dropWhile isSpace (rev t)"
    by (rule dropWhile_append2) (use assms(2) in auto)
  also have "\<dots> = rev t"
    using assms(3,5) by (cases t rule: rev_cases) simp_all
  finally have "dropWhileEnd isSpace (t @ r) = t" by (simp add: dropWhileEnd_def)
  with d show ?thesis by (simp add: trim_def)
qed

lemma trim_idem: "trim (trim s) = trim s"
proof (cases "trim s = []")
  case True
  show ?thesis unfolding True by (simp add: trim_def dropWhileEnd_def)
next
  case False
  then show ?thesis using trim_pad[of "[]" "[]" "trim s"] trim_ends[OF False] by simp
qed

section \<open>Properties of the sync decision\<close>

lemma truthy_Some: "truthy v \<longleftrightarrow> (\<exists>s. v = Some s \<and> s \<noteq> [])"
  by (cases v) (simp_all add: truthy_def)

lemma effective_timestamp_eq:
  "effective_timestamp a = Some e \<longleftrightarrow> (microCMSUpdatedAt_of a = Some e \<and> e \<noteq> [])"
  by (auto simp: effective_timestamp_def first_present_def microCMSUpdatedAt_of_def
      js_or_def truthy_def split: option.splits)

text \<open>
  The decision by cases. Without a record the decision is create only when the id names no
  member of \<open>Object.prototype\<close>; when it names one, the decision is skip. With a record
  the decision is update, with the record's \<open>qiitaId\<close>, when the effective timestamp and
  the stored one are present and the former is strictly later, and skip otherwise. The
  history comes back as it went in.
\<close>

lemma shouldSyncArticle_cases:
  "(articles h (article_id a) = None \<and> article_id a \<notin> set object_prototype_members \<longrightarrow>
      fst (shouldSyncArticle D a h) =
        \<lparr>shouldSync = True, action = Create, decision_qiitaId = None\<rparr>) \<and>
   (articles h (article_id a) = None \<and> article_id a \<in> set object_prototype_members \<longrightarrow>
      fst (shouldSyncArticle D a h) =
        \<lparr>shouldSync = False, action = Skip, decision_qiitaId = None\<rparr>) \<and>
   (\<forall>r e s. articles h (article_id a) = Some r \<and> effective_timestamp a = Some e \<and>
        microCMSUpdatedAt r = Some s \<and> s \<noteq> [] \<and> date_gt D (Some e) (Some s) \<longrightarrow>
      fst (shouldSyncArticle D a h) =
        \<lparr>shouldSync = True, action = Update, decision_qiitaId = Some (qiitaId r)\<rparr>) \<and>
   (\<forall>r. articles h (article_id a) = Some r \<and>
        \<not> (\<exists>e s. effective_timestamp a = Some e \<and> microCMSUpdatedAt r = Some s \<and>
               s \<noteq> [] \<and> date_gt D (Some e) (Some s)) \<longrightarrow>
      fst (shouldSyncArticle D a h) =
        \<lparr>shouldSync = False, action = Skip, decision_qiitaId = None\<rparr>) \<and>
   snd (shouldSyncArticle D a h) = h"
  by (auto simp: shouldSyncArticle_def get_property_def Let_def effective_timestamp_eq
      truthy_Some truthy_def split: option.splits)

text \<open>
  C1. The claim: without a record for the item's id the decision is create. The code: for
  the article with id \<open>constructor\<close>, published and updated, and a history without any
  record, \<open>history.articles[article.id]\<close> is the constructor inherited from
  \<open>Object.prototype\<close>, and the decision is skip, whatever the date parser.
\<close>

theorem shouldSyncArticle_prototype_member:
  "articles \<lparr>lastSyncTime = None, articles = Map.empty\<rparr> ''constructor'' = None \<and>
   fst (shouldSyncArticle D
          \<lparr>article_id = ''constructor'', title = ''T'', content = Str ''<p>x</p>'',
           excerpt = Undefined, category = CatUndefined, tags = None,
           publishedAt = Some ''2024-01-01'', updatedAt = Some ''2024-02-01'',
           revisedAt = None\<rparr>
          \<lparr>lastSyncTime = None, articles = Map.empty\<rparr>) =
     \<lparr>shouldSync = False, action = Skip, decision_qiitaId = None\<rparr>"
  by (simp add: shouldSyncArticle_def get_property_def object_prototype_members_def
      truthy_def Let_def)

section \<open>Properties of the tag normalizer\<close>

lemma foldl_set_add:
  "foldl set_add acc xs = acc @ first_occurrences (filter (\<lambda>x. x \<notin> set acc) xs)"
proof (induction xs arbitrary: acc)
  case Nil
  show ?case by simp
next
  case (Cons x xs)
  show ?case
  proof (cases "x \<in> set acc")
    case True
    then show ?thesis using Cons[of acc] by (simp add: set_add_def)
  next
    case False
    have "filter (\<lambda>y. y \<noteq> x) (filter (\<lambda>y. y \<notin> set acc) xs) =
          filter (\<lambda>y. y \<notin> set (acc @ [x])) xs"
      by (induction xs) auto
    then show ?thesis using False Cons[of "acc @ [x]"] by (simp add: set_add_def)
  qed
qed

lemma new_Set_first_occurrences: "new_Set xs = first_occurrences xs"
  by (simp add: new_Set_def foldl_set_add)

lemma first_occurrences_filter:
  "filter P (first_occurrences xs) = first_occurrences (filter P xs)"
proof (induction xs rule: first_occurrences.induct)
  case 1
  show ?case by simp
next
  case (2 x xs)
  have "filter P (filter (\<lambda>y. y \<noteq> x) xs) = filter (\<lambda>y. y \<noteq> x) (filter P xs)"
    by (induction xs) auto
  moreover have "\<not> P x \<Longrightarrow> filter (\<lambda>y. P y \<and> y \<noteq> x) xs = filter P xs"
    by (induction xs) auto
  ultimately show ?case using 2 by auto
qed

lemma set_first_occurrences: "set (first_occurrences xs) = set xs"
  by (induction xs rule: first_occurrences.induct) auto

lemma first_occurrences_map:
  "inj_on f (set xs) \<Longrightarrow> map f (first_occurrences xs) = first_occurrences (map f xs)"
proof (induction xs rule: first_occurrences.induct)
  case 1
  show ?case by simp
next
  case (2 x xs)
  have inj: "inj_on f (set (filter (\<lambda>y. y \<noteq> x) xs))"
    using 2(2) by (auto intro: inj_on_subset)
  have "filter (\<lambda>z. z \<noteq> f x) (map f xs) = map f (filter (\<lambda>y. y \<noteq> x) xs)"
    unfolding filter_map
  proof (rule arg_cong[where f = "map f"], rule filter_cong[OF refl])
    fix y assume "y \<in> set xs"
    then show "((\<lambda>z. z \<noteq> f x) \<circ> f) y = (y \<noteq> x)"
      using 2(2) by (auto simp: inj_on_def)
  qed
  then show ?case using 2(1)[OF inj] by simp
qed

lemma first_occurrences_map_distinct:
  assumes "distinct (map f (first_occurrences xs))"
  shows "map f (first_occurrences xs) = first_occurrences (map f xs)"
proof -
  have "inj_on f (set (first_occurrences xs))" using assms by (simp add: distinct_map)
  then show ?thesis by (simp add: set_first_occurrences first_occurrences_map)
qed

lemma tag_kept_iff: "tag_kept t \<longleftrightarrow> trim t \<noteq> [] \<and> length (trim t) \<le> 20"
  by (auto simp: tag_kept_def Let_def trim_def dropWhileEnd_def)

lemma kept_after_nonempty:
  "filter tag_kept (first_occurrences (xs @ filter (\<lambda>t. 0 < length t) ys)) =
   filter tag_kept (first_occurrences (xs @ ys))"
proof -
  have "filter tag_kept (filter (\<lambda>t. 0 < length t) ys) = filter tag_kept ys"
    by (induction ys) (auto simp: tag_kept_def)
  then show ?thesis by (simp add: first_occurrences_filter)
qed

lemma processTags_first_occurrences:
  "processTags cs tags' maxTags =
     (let candidates = flatten_categories cs @
            (case tags' of None \<Rightarrow> [] | Some t \<Rightarrow> map trim (split_on (CHR '','') t));
          survivors = take maxTags
                        (filter (\<lambda>t. trim t \<noteq> [] \<and> length (trim t) \<le> 20)
                           (first_occurrences candidates))
      in map (\<lambda>t. \<lparr>name = trim t\<rparr>) (if survivors = [] then [''AI''] else survivors))"
proof -
  have k: "tag_kept = (\<lambda>t. trim t \<noteq> [] \<and> length (trim t) \<le> 20)"
    by (rule ext) (rule tag_kept_iff)
  have e: "filter tag_kept (first_occurrences (xs @ [[]])) = filter tag_kept (first_occurrences xs)" for xs
    by (simp add: first_occurrences_filter tag_kept_def)
  show ?thesis
  proof (cases tags')
    case None
    then show ?thesis
      by (simp add: processTags_def Let_def new_Set_first_occurrences flatten_categories_def k)
  next
    case (Some t)
    show ?thesis
    proof (cases "t = []")
      case True
      with Some e[of "flatten_categories cs"] show ?thesis
        by (simp add: processTags_def Let_def new_Set_first_occurrences flatten_categories_def
            k trim_def dropWhileEnd_def)
    next
      case False
      with Some kept_after_nonempty[of "flatten_categories cs" "map trim (split_on (CHR '','') t)"]
      show ?thesis
        by (simp add: processTags_def Let_def new_Set_first_occurrences flatten_categories_def k)
    qed
  qed
qed

lemma processTags_trimmed_candidates:
  fixes cs tags'
  defines "C \<equiv> flatten_categories cs @
            (case tags' of None \<Rightarrow> [] | Some t \<Rightarrow> map trim (split_on (CHR '','') t))"
  assumes "distinct (map trim (first_occurrences C))"
  shows "processTags cs tags' maxTags =
     map (\<lambda>t. \<lparr>name = t\<rparr>)
       (if take maxTags (filter (\<lambda>t. t \<noteq> [] \<and> length t \<le> 20)
             (first_occurrences (map trim C))) = []
        then [''AI'']
        else take maxTags (filter (\<lambda>t. t \<noteq> [] \<and> length t \<le> 20)
               (first_occurrences (map trim C))))"
proof -
  let ?ok = "\<lambda>t. t \<noteq> [] \<and> length t \<le> (20::nat)"
  let ?S = "take maxTags (filter (?ok \<circ> trim) (first_occurrences C))"
  have p: "processTags cs tags' maxTags =
      map (\<lambda>t. \<lparr>name = trim t\<rparr>) (if ?S = [] then [''AI''] else ?S)"
    by (simp add: processTags_first_occurrences C_def Let_def comp_def)
  have "first_occurrences (map trim C) = map trim (first_occurrences C)"
    by (rule first_occurrences_map_distinct[OF assms(2), symmetric])
  then have m: "map trim ?S = take maxTags (filter ?ok (first_occurrences (map trim C)))"
    by (simp add: take_map filter_map)
  have ai: "trim ''AI'' = ''AI''" by code_simp
  have n: "(?S = []) = (map trim ?S = [])" by simp
  have "map (\<lambda>t. \<lparr>name = trim t\<rparr>) (if ?S = [] then [''AI''] else ?S) =
        map (\<lambda>t. \<lparr>name = t\<rparr>) (if map trim ?S = [] then [''AI''] else map trim ?S)"
    by (simp add: ai comp_def)
  then show ?thesis unfolding p m .
qed

text \<open>
  C2, as amended. When the candidates that differ stay different after trimming, the tags
  are what the specification's steps give once every candidate, of a category as of
  \<open>tags\<close>, is trimmed first: the trimmed candidates in first-seen order, duplicates
  removed by exact equality, without those that are empty or longer than 20, cut to the
  first \<open>maxTags\<close>, or the default tag \<open>AI\<close> when none is left. The two examples of the
  specification come out as it says.
\<close>

theorem processTags_normalizes:
  "(distinct (map trim (first_occurrences
       (flatten_categories cs @
        (case tags' of None \<Rightarrow> [] | Some t \<Rightarrow> map trim (split_on (CHR '','') t))))) \<longrightarrow>
    processTags cs tags' maxTags =
      (let candidates = map trim (flatten_categories cs) @
             (case tags' of None \<Rightarrow> [] | Some t \<Rightarrow> map trim (split_on (CHR '','') t));
           survivors = take maxTags
                         (filter (\<lambda>t. t \<noteq> [] \<and> length t \<le> 20)
                            (first_occurrences candidates))
       in map (\<lambda>t. \<lparr>name = t\<rparr>) (if survivors = [] then [''AI''] else survivors))) \<and>
   processTags (CatArray [CString ''A'', CString ''A'', CString ''B'']) (Some ''c, d'') 5 =
     [\<lparr>name = ''A''\<rparr>, \<lparr>name = ''B''\<rparr>, \<lparr>name = ''c''\<rparr>, \<lparr>name = ''d''\<rparr>] \<and>
   processTags (CatArray []) (Some []) 5 = [\<lparr>name = ''AI''\<rparr>]"
proof (intro conjI impI)
  assume d: "distinct (map trim (first_occurrences
       (flatten_categories cs @
        (case tags' of None \<Rightarrow> [] | Some t \<Rightarrow> map trim (split_on (CHR '','') t)))))"
  have "map trim (flatten_categories cs @
          (case tags' of None \<Rightarrow> [] | Some t \<Rightarrow> map trim (split_on (CHR '','') t))) =
        map trim (flatten_categories cs) @
          (case tags' of None \<Rightarrow> [] | Some t \<Rightarrow> map trim (split_on (CHR '','') t))"
    by (cases tags') (simp_all add: trim_idem comp_def)
  then show "processTags cs tags' maxTags =
      (let candidates = map trim (flatten_categories cs) @
             (case tags' of None \<Rightarrow> [] | Some t \<Rightarrow> map trim (split_on (CHR '','') t));
           survivors = take maxTags
                         (filter (\<lambda>t. t \<noteq> [] \<and> length t \<le> 20)
                            (first_occurrences candidates))
       in map (\<lambda>t. \<lparr>name = t\<rparr>) (if survivors = [] then [''AI''] else survivors))"
    using processTags_trimmed_candidates[OF d, of maxTags] by (simp add: Let_def)
next
  show "processTags (CatArray [CString ''A'', CString ''A'', CString ''B'']) (Some ''c, d'') 5 =
     [\<lparr>name = ''A''\<rparr>, \<lparr>name = ''B''\<rparr>, \<lparr>name = ''c''\<rparr>, \<lparr>name = ''d''\<rparr>]"
    by code_simp
  show "processTags (CatArray []) (Some []) 5 = [\<lparr>name = ''AI''\<rparr>]"
    by code_simp
qed

theorem processTags_normalizes_witness:
  "distinct (map trim (first_occurrences
       (flatten_categories (CatArray [CString '' A'', CObject (Some ''B '') None, CString '' A'']) @
        map trim (split_on (CHR '','') ''c, d,c'')))) \<and>
   processTags (CatArray [CString '' A'', CObject (Some ''B '') None, CString '' A''])
     (Some ''c, d,c'') 3 =
     [\<lparr>name = ''A''\<rparr>, \<lparr>name = ''B''\<rparr>, \<lparr>name = ''c''\<rparr>]"
proof -
  have d: "distinct (map trim (first_occurrences
       (flatten_categories (CatArray [CString '' A'', CObject (Some ''B '') None, CString '' A'']) @
        (case Some ''c, d,c'' of None \<Rightarrow> []
         | Some t \<Rightarrow> map trim (split_on (CHR '','') t)))))"
    by code_simp
  have v: "(let candidates =
              map trim (flatten_categories
                 (CatArray [CString '' A'', CObject (Some ''B '') None, CString '' A''])) @
              (case Some ''c, d,c'' of None \<Rightarrow> []
               | Some t \<Rightarrow> map trim (split_on (CHR '','') t));
            survivors = take 3
                          (filter (\<lambda>t. t \<noteq> [] \<and> length t \<le> 20)
                             (first_occurrences candidates))
        in map (\<lambda>t. \<lparr>name = t\<rparr>) (if survivors = [] then [''AI''] else survivors)) =
     [\<lparr>name = ''A''\<rparr>, \<lparr>name = ''B''\<rparr>, \<lparr>name = ''c''\<rparr>]"
    by code_simp
  have "processTags (CatArray [CString '' A'', CObject (Some ''B '') None, CString '' A''])
     (Some ''c, d,c'') 3 =
     [\<lparr>name = ''A''\<rparr>, \<lparr>name = ''B''\<rparr>, \<lparr>name = ''c''\<rparr>]"
    using processTags_normalizes[of
        "CatArray [CString '' A'', CObject (Some ''B '') None, CString '' A'']"
        "Some ''c, d,c''" 3, THEN conjunct1, THEN mp, OF d]
    unfolding v .
  moreover have "distinct (map trim (first_occurrences
       (flatten_categories (CatArray [CString '' A'', CObject (Some ''B '') None, CString '' A'']) @
        map trim (split_on (CHR '','') ''c, d,c''))))"
    using d by simp
  ultimately show ?thesis by simp
qed

text \<open>
  The claim as worded fails on a category with white space around it: the specification's
  normalizer keeps the candidate as it is, the code emits its trimmed form.
\<close>

theorem processTags_untrimmed_counterexample:
  "processTags (CatArray [CString '' A'']) (Some []) 5 \<noteq>
   spec_normalize (CatArray [CString '' A'']) [] 5 20"
  by code_simp

section \<open>Properties of the custom rules\<close>













lemma js_join_replicate:
  "js_join sep (replicate (Suc n) x) @ sep = concat (replicate (Suc n) (x @ sep))"
proof (induction n)
  case 0
  show ?case by simp
next
  case (Suc n)
  have "js_join sep (replicate (Suc (Suc n)) x) = x @ sep @ js_join sep (replicate (Suc n) x)"
    by simp
  with Suc show ?case by simp
qed

lemma separator_line:
  "''|'' @ js_join '' |'' (replicate n '' --- '') @ '' |'' =
   (if n = 0 then ''| |'' else ''|'' @ concat (replicate n '' ---  |''))"
proof (cases n)
  case 0
  then show ?thesis by simp
next
  case (Suc m)
  then show ?thesis using js_join_replicate[of "'' |''" m "'' --- ''"] by simp
qed

lemma replace_all_char_notin:
  "c \<notin> set r \<Longrightarrow> c \<notin> set (replace_all_char c r s)"
  by (induction s) (auto simp: replace_all_char_def)

lemma replace_all_char_keeps:
  "x \<noteq> c \<Longrightarrow> x \<notin> set r \<Longrightarrow> x \<notin> set s \<Longrightarrow> x \<notin> set (replace_all_char c r s)"
  by (induction s) (auto simp: replace_all_char_def)

lemma tableCell_no_newline: "nl \<notin> set (tableCell_replacement c)"
proof -
  let ?s = "replace_all_char (CHR ''|'') [CHR 0x5C, CHR ''|''] (replace_all_char nl '' '' c)"
  have h: "nl \<notin> set (replace_all_char nl '' '' c)"
    by (rule replace_all_char_notin) (simp add: nl_def)
  have "nl \<notin> set ?s"
    by (rule replace_all_char_keeps[OF _ _ h]) (simp_all add: nl_def)
  then have "nl \<notin> set (trim ?s)" using trim_subset[of ?s] by blast
  then show ?thesis by (simp add: tableCell_replacement_def nl_def)
qed

text \<open>
  C5, as amended. A row whose parent is \<open>THEAD\<close>, or which is the first element of a
  \<open>TBODY\<close> that no \<open>THEAD\<close> precedes, is rendered \<open>|\<close>, its content, a line break and
  the separator line \<open>|\<close> followed by \<open> ---  |\<close> once per cell (\<open>| |\<close> for a row
  without cells), then a line break. A cell is rendered as a space, its content with line
  breaks turned into spaces, pipes escaped and the ends trimmed, and \<open> |\<close>. The two rows
  of a table of two rows and two columns are as computed.
\<close>

theorem tableRow_header_separator:
  "(parentName node = ''THEAD'' \<or>
    (parentName node = ''TBODY'' \<and> parentPreviousElementSiblingName node \<noteq> Some ''THEAD'' \<and>
     isFirstElementChild node) \<longrightarrow>
    tableRow_replacement c node =
      ''|'' @ c @ [nl] @
      (if childrenLength node = 0 then ''| |''
       else ''|'' @ concat (replicate (childrenLength node) '' ---  |'')) @ [nl]) \<and>
   tableCell_replacement c =
     '' '' @ trim (replace_all_char (CHR ''|'') [CHR 0x5C, CHR ''|'']
                    (replace_all_char nl '' '' c)) @ '' |'' \<and>
   nl \<notin> set (tableCell_replacement c) \<and>
   tableRow_replacement (tableCell_replacement '' a '' @ tableCell_replacement ''b|'')
      \<lparr>parentName = ''TBODY'', parentPreviousElementSiblingName = None,
       isFirstElementChild = True, childrenLength = 2\<rparr> =
     ''| a | b'' @ [CHR 0x5C] @ ''| |'' @ [nl] @ ''| ---  | ---  |'' @ [nl] \<and>
   tableRow_replacement (tableCell_replacement ''c'' @ tableCell_replacement ''d'')
      \<lparr>parentName = ''TBODY'', parentPreviousElementSiblingName = None,
       isFirstElementChild = False, childrenLength = 2\<rparr> =
     ''| c | d |'' @ [nl]"
proof (intro conjI impI)
  assume "parentName node = ''THEAD'' \<or>
    (parentName node = ''TBODY'' \<and> parentPreviousElementSiblingName node \<noteq> Some ''THEAD'' \<and>
     isFirstElementChild node)"
  then have "isHeaderRow node" by (simp add: isHeaderRow_def)
  then have "tableRow_replacement c node =
      ''|'' @ c @ [nl] @
      (''|'' @ js_join '' |'' (replicate (childrenLength node) '' --- '') @ '' |'') @ [nl]"
    by (simp add: tableRow_replacement_def Let_def)
  then show "tableRow_replacement c node =
      ''|'' @ c @ [nl] @
      (if childrenLength node = 0 then ''| |''
       else ''|'' @ concat (replicate (childrenLength node) '' ---  |'')) @ [nl]"
    by (simp only: separator_line)
next
  show "tableCell_replacement c =
     '' '' @ trim (replace_all_char (CHR ''|'') [CHR 0x5C, CHR ''|'']
                    (replace_all_char nl '' '' c)) @ '' |''"
    by (simp add: tableCell_replacement_def)
  show "nl \<notin> set (tableCell_replacement c)" by (rule tableCell_no_newline)
  show "tableRow_replacement (tableCell_replacement '' a '' @ tableCell_replacement ''b|'')
      \<lparr>parentName = ''TBODY'', parentPreviousElementSiblingName = None,
       isFirstElementChild = True, childrenLength = 2\<rparr> =
     ''| a | b'' @ [CHR 0x5C] @ ''| |'' @ [nl] @ ''| ---  | ---  |'' @ [nl]"
    by code_simp
  show "tableRow_replacement (tableCell_replacement ''c'' @ tableCell_replacement ''d'')
      \<lparr>parentName = ''TBODY'', parentPreviousElementSiblingName = None,
       isFirstElementChild = False, childrenLength = 2\<rparr> =
     ''| c | d |'' @ [nl]"
    by code_simp
qed

theorem tableRow_header_separator_witness:
  "tableRow_replacement '' h1 | h2 |''
      \<lparr>parentName = ''THEAD'', parentPreviousElementSiblingName = None,
       isFirstElementChild = True, childrenLength = 2\<rparr> =
     ''| h1 | h2 |'' @ [nl] @ ''| ---  | ---  |'' @ [nl] \<and>
   tableRow_replacement '' x |''
      \<lparr>parentName = ''TBODY'', parentPreviousElementSiblingName = Some ''CAPTION'',
       isFirstElementChild = True, childrenLength = 1\<rparr> =
     ''| x |'' @ [nl] @ ''| ---  |'' @ [nl]"
  using tableRow_header_separator[of
      "\<lparr>parentName = ''THEAD'', parentPreviousElementSiblingName = None,
        isFirstElementChild = True, childrenLength = 2\<rparr>" "'' h1 | h2 |''"]
    tableRow_header_separator[of
      "\<lparr>parentName = ''TBODY'', parentPreviousElementSiblingName = Some ''CAPTION'',
        isFirstElementChild = True, childrenLength = 1\<rparr>" "'' x |''"]
  by (simp add: numeral_2_eq_2)

text \<open>
  The claim as worded fails on the form of the separator: the code pads every segment, so
  the line is \<open>| ---  | ---  |\<close>, not \<open>|---|---|\<close>.
\<close>

theorem tableRow_separator_counterexample:
  "tableRow_replacement (tableCell_replacement ''a'' @ tableCell_replacement ''b'')
      \<lparr>parentName = ''THEAD'', parentPreviousElementSiblingName = None,
       isFirstElementChild = True, childrenLength = 2\<rparr> \<noteq>
   spec_header_row (tableCell_replacement ''a'' @ tableCell_replacement ''b'') 2"
  by code_simp

lemma replace_all_char_append:
  "replace_all_char c r (a @ b) = replace_all_char c r a @ replace_all_char c r b"
  by (simp add: replace_all_char_def)

lemma reindented_no_final_newline:
  "\<not> ends_with_newline (replace_all_char nl (nl # ''    '') s)"
proof (cases s rule: rev_cases)
  case Nil
  then show ?thesis by (simp add: ends_with_newline_def replace_all_char_def)
next
  case (snoc xs x)
  then show ?thesis
    by (simp add: ends_with_newline_def replace_all_char_def nl_def)
qed

lemma replace_trailing_newlines_one:
  "replace_trailing_newlines [nl] s =
   dropWhileEnd (\<lambda>x. x = nl) s @ (if ends_with_newline s then [nl] else [])"
  using dropWhileEnd_id[of s "\<lambda>x. x = nl"]
  by (auto simp: replace_trailing_newlines_def ends_with_newline_def)

text \<open>
  C6, as amended. The content of a list item loses its leading line breaks, and a run of
  line breaks at its end becomes one line break; every line break, that one included, is
  then followed by four spaces; the bullet marker and a space come in front. The
  re-indented content never ends in a line break, so a line break is appended exactly when
  a sibling follows.
\<close>

theorem listItem_replacement_shape:
  "listItem_replacement c followed options =
     bulletListMarker options @ '' '' @
     replace_all_char nl (nl # ''    '')
       (dropWhileEnd (\<lambda>x. x = nl) (dropWhile (\<lambda>x. x = nl) c)) @
     (if ends_with_newline (dropWhile (\<lambda>x. x = nl) c) then nl # ''    '' else []) @
     (if followed then [nl] else []) \<and>
   listItem_replacement ([nl, nl] @ ''a'' @ [nl] @ ''b'') True converter_options =
     ''- a'' @ [nl] @ ''    b'' @ [nl] \<and>
   listItem_replacement ([nl, nl] @ ''a'' @ [nl] @ ''b'') False converter_options =
     ''- a'' @ [nl] @ ''    b'' \<and>
   listItem_replacement (''a'' @ [nl, nl]) False converter_options =
     ''- a'' @ [nl] @ ''    ''"
proof (intro conjI)
  let ?body = "dropWhile (\<lambda>x. x = nl) c"
  have "replace_all_char nl (nl # ''    '') (replace_trailing_newlines [nl] ?body) =
        replace_all_char nl (nl # ''    '') (dropWhileEnd (\<lambda>x. x = nl) ?body) @
        (if ends_with_newline ?body then nl # ''    '' else [])"
    by (simp add: replace_trailing_newlines_one replace_all_char_append)
       (simp add: replace_all_char_def)
  then show "listItem_replacement c followed options =
     bulletListMarker options @ '' '' @
     replace_all_char nl (nl # ''    '') (dropWhileEnd (\<lambda>x. x = nl) ?body) @
     (if ends_with_newline ?body then nl # ''    '' else []) @
     (if followed then [nl] else [])"
    using reindented_no_final_newline[of "replace_trailing_newlines [nl] ?body"]
    by (simp add: listItem_replacement_def Let_def strip_leading_newlines_def)
next
  show "listItem_replacement ([nl, nl] @ ''a'' @ [nl] @ ''b'') True converter_options =
     ''- a'' @ [nl] @ ''    b'' @ [nl]" by code_simp
  show "listItem_replacement ([nl, nl] @ ''a'' @ [nl] @ ''b'') False converter_options =
     ''- a'' @ [nl] @ ''    b''" by code_simp
  show "listItem_replacement (''a'' @ [nl, nl]) False converter_options =
     ''- a'' @ [nl] @ ''    ''" by code_simp
qed

text \<open>
  The claim as worded fails on a content that ends in a line break: the code keeps one
  line break and indents it, where the specification strips it.
\<close>

theorem listItem_trailing_counterexample:
  "listItem_replacement (''a'' @ [nl]) False converter_options \<noteq>
   spec_listItem (''a'' @ [nl]) False converter_options"
  by code_simp

section \<open>Properties of convert\<close>

lemma has_run3_Cons: "has_run3 s \<Longrightarrow> has_run3 (a # s)"
  by (cases s rule: has_run3.cases) auto

lemma has_run3_prepend: "has_run3 s \<Longrightarrow> has_run3 (p @ s)"
  by (induction p) (auto intro: has_run3_Cons)

lemma has_run3_append: "has_run3 s \<Longrightarrow> has_run3 (s @ q)"
  by (induction s rule: has_run3.induct) auto

lemma has_run3_skip: "c \<noteq> nl \<Longrightarrow> has_run3 (c # s) = has_run3 s"
  by (cases s rule: has_run3.cases) auto

lemma has_run3_one: "x \<noteq> nl \<Longrightarrow> has_run3 (a # x # s) = has_run3 s"
  by (cases s rule: has_run3.cases) auto

lemma has_run3_two: "x \<noteq> nl \<Longrightarrow> has_run3 (a # b # x # s) = has_run3 s"
  by (simp add: has_run3_one)

lemma collapse_newlines_head:
  "collapse_newlines s = [] \<or> hd (collapse_newlines s) = hd s"
  by (cases s) (auto simp: Let_def)

lemma collapse_newlines_no_run3: "\<not> has_run3 (collapse_newlines s)"
proof (induction s rule: collapse_newlines.induct)
  case 1
  show ?case by simp
next
  case (2 c cs)
  show ?case
  proof (cases "c = nl")
    case False
    with 2 show ?thesis by (simp add: has_run3_skip)
  next
    case True
    let ?rest = "collapse_newlines (dropWhile (\<lambda>x. x = nl) cs)"
    have ih: "\<not> has_run3 ?rest" using 2(1)[OF True refl] by simp
    have hd: "?rest = [] \<or> hd ?rest \<noteq> nl"
    proof (cases "dropWhile (\<lambda>x. x = nl) cs")
      case Nil
      show ?thesis unfolding Nil by simp
    next
      case (Cons x xs)
      then have "x \<noteq> nl" using hd_dropWhile[of "\<lambda>x. x = nl" cs] by auto
      with Cons show ?thesis using collapse_newlines_head[of "x # xs"] by auto
    qed
    have pre: "\<not> has_run3 (p @ ?rest)" if "p = [nl] \<or> p = [nl, nl]" for p
    proof (cases ?rest)
      case Nil
      with that show ?thesis by auto
    next
      case (Cons x xs)
      with hd have "x \<noteq> nl" by simp
      with Cons ih that show ?thesis
        by (auto simp: has_run3_one has_run3_two has_run3_skip)
    qed
    define T where "T = takeWhile (\<lambda>x. x = nl) cs"
    have allnl: "\<forall>y\<in>set T. y = nl"
      unfolding T_def by (auto dest: set_takeWhileD)
    have eq: "collapse_newlines (c # cs) = (if 2 \<le> length T then [nl, nl] else nl # T) @ ?rest"
      using True by (simp add: T_def Let_def)
    have "T = [] \<or> T = [nl] \<or> 2 \<le> length T"
    proof (cases T)
      case Nil
      then show ?thesis by simp
    next
      case (Cons y ys)
      with allnl show ?thesis by (cases ys) auto
    qed
    then have "collapse_newlines (c # cs) = [nl] @ ?rest \<or>
               collapse_newlines (c # cs) = [nl, nl] @ ?rest"
      unfolding eq by auto
    then show ?thesis
    proof
      assume e: "collapse_newlines (c # cs) = [nl] @ ?rest"
      show ?thesis unfolding e by (rule pre) simp
    next
      assume e: "collapse_newlines (c # cs) = [nl, nl] @ ?rest"
      show ?thesis unfolding e by (rule pre) simp
    qed
  qed
qed

lemma strip_ends:
  assumes "dropWhileEnd P (dropWhile P c) \<noteq> []"
  shows "\<not> P (hd (dropWhileEnd P (dropWhile P c)))"
    and "\<not> P (last (dropWhileEnd P (dropWhile P c)))"
proof -
  have d: "dropWhile P c \<noteq> []"
    using assms by (metis dropWhileEnd_def dropWhile.simps(1) rev.simps(1))
  have "hd (dropWhileEnd P (dropWhile P c)) = hd (dropWhile P c)"
    using assms by (rule dropWhileEnd_hd)
  then show "\<not> P (hd (dropWhileEnd P (dropWhile P c)))" using d by (simp add: hd_dropWhile)
  show "\<not> P (last (dropWhileEnd P (dropWhile P c)))"
    using assms by (rule dropWhileEnd_last)
qed

lemma replace_trailing_newlines_none:
  "replace_trailing_newlines [] s = dropWhileEnd (\<lambda>x. x = nl) s"
  using dropWhileEnd_id[of s "\<lambda>x. x = nl"]
  by (auto simp: replace_trailing_newlines_def)

lemma strip_no_run3:
  assumes "\<not> has_run3 s"
  shows "\<not> has_run3 (dropWhileEnd P (dropWhile P s))"
proof
  assume h: "has_run3 (dropWhileEnd P (dropWhile P s))"
  obtain r where "dropWhile P s = dropWhileEnd P (dropWhile P s) @ r"
    using dropWhileEnd_decomp[of "dropWhile P s" P] by blast
  with h have "has_run3 (dropWhile P s)" by (metis has_run3_append)
  then have "has_run3 (takeWhile P s @ dropWhile P s)" by (rule has_run3_prepend)
  with assms show False by simp
qed

lemma normalized_newlines:
  fixes m :: string
  defines "N \<equiv> replace_trailing_newlines [] (strip_leading_newlines (collapse_newlines m))"
  shows "\<not> has_run3 N" and "N = [] \<or> (hd N \<noteq> nl \<and> last N \<noteq> nl)"
proof -
  have N: "N = dropWhileEnd (\<lambda>x. x = nl) (dropWhile (\<lambda>x. x = nl) (collapse_newlines m))"
    by (simp add: N_def replace_trailing_newlines_none strip_leading_newlines_def)
  show "\<not> has_run3 N"
    unfolding N by (rule strip_no_run3) (rule collapse_newlines_no_run3)
  show "N = [] \<or> (hd N \<noteq> nl \<and> last N \<noteq> nl)"
    unfolding N using strip_ends[of "\<lambda>x. x = nl" "collapse_newlines m"] by blast
qed

lemma convert_nonempty:
  "s \<noteq> [] \<Longrightarrow> convert td (Str s) options =
     (case convert_try td s options of Inl err \<Rightarrow> Inr s | Inr markdown \<Rightarrow> Inr markdown)"
  by (simp add: convert_def)

lemma excerpt_given_Str:
  "trim e \<noteq> [] \<Longrightarrow> excerpt_given (Str e) = Inr (Some e)"
  by (simp add: excerpt_given_def trim_nonempty)

lemma convert_without_excerpt:
  assumes "html \<noteq> []" "td html = Inr rendered"
    and "excerpt_given (opt_excerpt options) = Inr None"
  shows "convert td (Str html) options =
     Inr (replace_trailing_newlines []
            (strip_leading_newlines (collapse_newlines (fixBoldSpacing rendered))) @
          [nl, nl] @ generateFooter)"
  using assms by (simp add: convert_nonempty convert_try_def Let_def)

lemma convert_with_excerpt:
  assumes "html \<noteq> []" "td html = Inr rendered"
    and "opt_excerpt options = Str e" "trim e \<noteq> []" "td e = Inr em"
  shows "convert td (Str html) options =
     Inr ((if em \<noteq> []
           then em @ [nl, nl] @
                replace_trailing_newlines []
                  (strip_leading_newlines (collapse_newlines (fixBoldSpacing rendered)))
           else replace_trailing_newlines []
                  (strip_leading_newlines (collapse_newlines (fixBoldSpacing rendered)))) @
          [nl, nl] @ generateFooter)"
  using assms excerpt_given_Str[OF assms(4)]
  by (simp add: convert_nonempty convert_try_def Let_def)

lemma fixBoldSpacing_unchanged:
  "\<not> list_ex test_bad_spacing (boldParts markdown) \<Longrightarrow> fixBoldSpacing markdown = markdown"
  by (simp add: fixBoldSpacing_def)

text \<open>
  \<open>fixBoldSpacing\<close> looks for its pattern in the whole rendering, so it also rewrites
  text that is not bold, such as a line of code with two powers.
\<close>

lemma fixBoldSpacing_rewrites_code:
  "fixBoldSpacing ''x = a ** 2 + b ** 2'' = ''x = a **2 + b** 2''"
  by code_simp

text \<open>
  C7, as amended. For a non-empty document that Turndown renders, and whose rendering has
  no \<open>**\<close> pair with white space inside both delimiters (so that \<open>fixBoldSpacing\<close>
  leaves it as it is), the rendering has its runs of three or more line breaks collapsed to
  two and its leading and trailing line breaks stripped: what is left has no run of three
  line breaks and neither starts nor ends with a line break. Without a non-blank excerpt the
  result is that text, a blank line and the footer. With a non-blank excerpt that Turndown
  renders, the rendering of the excerpt and a blank line come first when that rendering is
  not empty, and nothing comes first when it is empty. Every such result ends with a blank
  line and the footer.
\<close>

theorem convert_postprocess:
  "html \<noteq> [] \<and> td html = Inr rendered \<and>
   \<not> list_ex test_bad_spacing (boldParts rendered) \<longrightarrow>
   (let N = replace_trailing_newlines []
              (strip_leading_newlines (collapse_newlines rendered))
    in \<not> has_run3 N \<and> (N = [] \<or> (hd N \<noteq> nl \<and> last N \<noteq> nl)) \<and>
       (excerpt_given (opt_excerpt options) = Inr None \<longrightarrow>
          convert td (Str html) options = Inr (N @ [nl, nl] @ generateFooter)) \<and>
       (\<forall>e em. opt_excerpt options = Str e \<and> trim e \<noteq> [] \<and> td e = Inr em \<longrightarrow>
          convert td (Str html) options =
            Inr ((if em \<noteq> [] then em @ [nl, nl] @ N else N) @ [nl, nl] @ generateFooter)))"
  unfolding Let_def
proof (intro impI conjI allI)
  show "\<not> has_run3 (replace_trailing_newlines []
              (strip_leading_newlines (collapse_newlines rendered)))"
    by (rule normalized_newlines(1))
  show "replace_trailing_newlines []
          (strip_leading_newlines (collapse_newlines rendered)) = [] \<or>
        (hd (replace_trailing_newlines []
              (strip_leading_newlines (collapse_newlines rendered))) \<noteq> nl \<and>
         last (replace_trailing_newlines []
              (strip_leading_newlines (collapse_newlines rendered))) \<noteq> nl)"
    by (rule normalized_newlines(2))
next
  assume a: "html \<noteq> [] \<and> td html = Inr rendered \<and>
      \<not> list_ex test_bad_spacing (boldParts rendered)"
    and b: "excerpt_given (opt_excerpt options) = Inr None"
  have f: "fixBoldSpacing rendered = rendered"
    using a by (intro fixBoldSpacing_unchanged) simp
  show "convert td (Str html) options =
     Inr (replace_trailing_newlines []
            (strip_leading_newlines (collapse_newlines rendered)) @
          [nl, nl] @ generateFooter)"
    using convert_without_excerpt[of html td rendered options] a b by (simp add: f)
next
  fix e em
  assume a: "html \<noteq> [] \<and> td html = Inr rendered \<and>
      \<not> list_ex test_bad_spacing (boldParts rendered)"
    and b: "opt_excerpt options = Str e \<and> trim e \<noteq> [] \<and> td e = Inr em"
  have f: "fixBoldSpacing rendered = rendered"
    using a by (intro fixBoldSpacing_unchanged) simp
  show "convert td (Str html) options =
     Inr ((if em \<noteq> []
           then em @ [nl, nl] @
                replace_trailing_newlines []
                  (strip_leading_newlines (collapse_newlines rendered))
           else replace_trailing_newlines []
                  (strip_leading_newlines (collapse_newlines rendered))) @
          [nl, nl] @ generateFooter)"
    using convert_with_excerpt[of html td rendered options e em] a b by (simp add: f)
qed

theorem convert_postprocess_witness:
  "convert (\<lambda>s. if s = ''<p>x</p>'' then Inr (''x'' @ [nl, nl, nl, nl] @ ''y'' @ [nl])
                 else if s = ''<i>e</i>'' then Inr ''*e*'' else Inr [])
     (Str ''<p>x</p>'') \<lparr>opt_excerpt = Undefined, originalUrl = None, originalTitle = ''t''\<rparr> =
     Inr (''x'' @ [nl, nl] @ ''y'' @ [nl, nl] @ generateFooter) \<and>
   convert (\<lambda>s. if s = ''<p>x</p>'' then Inr (''x'' @ [nl, nl, nl, nl] @ ''y'' @ [nl])
                 else if s = ''<i>e</i>'' then Inr ''*e*'' else Inr [])
     (Str ''<p>x</p>'')
     \<lparr>opt_excerpt = Str ''<i>e</i>'', originalUrl = None, originalTitle = ''t''\<rparr> =
     Inr (''*e*'' @ [nl, nl] @ ''x'' @ [nl, nl] @ ''y'' @ [nl, nl] @ generateFooter)"
  (is "convert ?td ?h ?o1 = _ \<and> convert ?td ?h ?o2 = _")
proof -
  let ?r = "''x'' @ [nl, nl, nl, nl] @ ''y'' @ [nl]"
  have nb: "\<not> list_ex test_bad_spacing (boldParts (''x'' @ [nl, nl, nl, nl] @ ''y'' @ [nl]))"
    by code_simp
  have p: "''<p>x</p>'' \<noteq> [] \<and> ?td ''<p>x</p>'' = Inr ?r \<and>
      \<not> list_ex test_bad_spacing (boldParts ?r)"
    using nb by simp
  have n: "replace_trailing_newlines [] (strip_leading_newlines (collapse_newlines ?r)) =
           ''x'' @ [nl, nl] @ ''y''" by code_simp
  have t: "trim ''<i>e</i>'' \<noteq> []" by code_simp
  have g: "excerpt_given (opt_excerpt ?o1) = Inr None" by (simp add: excerpt_given_def)
  note T1 = convert_postprocess[of "''<p>x</p>''" ?td ?r ?o1, THEN mp, OF p,
      unfolded Let_def n, THEN conjunct2, THEN conjunct2, THEN conjunct1, THEN mp, OF g]
  have e: "opt_excerpt ?o2 = Str ''<i>e</i>'' \<and> trim ''<i>e</i>'' \<noteq> [] \<and>
      ?td ''<i>e</i>'' = Inr ''*e*''"
    using t by simp
  note T2 = convert_postprocess[of "''<p>x</p>''" ?td ?r ?o2, THEN mp, OF p,
      unfolded Let_def n, THEN conjunct2, THEN conjunct2, THEN conjunct2,
      THEN spec, THEN spec, THEN mp, OF e]
  show ?thesis using T1 T2 by simp
qed

text \<open>
  The claim as worded fails on a non-blank excerpt whose rendering is empty, such as an empty
  paragraph: the code prepends nothing, the specification an empty rendering and a blank
  line. The engine of the example returns what Turndown returns on the two inputs.
\<close>

theorem convert_empty_excerpt_counterexample:
  "convert (\<lambda>s. Inr (if s = ''<p>x</p>'' then ''x'' else []))
     (Str ''<p>x</p>'')
     \<lparr>opt_excerpt = Str ''<p></p>'', originalUrl = None, originalTitle = ''t''\<rparr> \<noteq>
   Inr (spec_convert (\<lambda>s. if s = ''<p>x</p>'' then ''x'' else []) ''<p>x</p>'' ''<p></p>'')"
  by code_simp

lemma convert_returns: "\<exists>r. convert td html options = Inr r"
  by (cases html) (auto simp: convert_def split: sum.splits)

lemma convert_try_excerpt_throws:
  assumes "opt_excerpt options = Str e" "trim e \<noteq> []" "td e = Inl err"
  shows "\<exists>err'. convert_try td s options = Inl err'"
  using assms excerpt_given_Str[OF assms(2)]
  by (cases "td s") (simp_all add: convert_try_def Let_def)

text \<open>
  C8. \<open>convert\<close> always returns. When Turndown throws on a non-empty document, or on
  its non-blank excerpt, or when the excerpt is a truthy value without \<open>trim\<close>, the
  result is the document as it was given.
\<close>

theorem convert_never_throws:
  "(\<exists>r. convert td html options = Inr r) \<and>
   (\<forall>s err. s \<noteq> [] \<and> td s = Inl err \<longrightarrow> convert td (Str s) options = Inr s) \<and>
   (\<forall>s e err. s \<noteq> [] \<and> opt_excerpt options = Str e \<and> trim e \<noteq> [] \<and> td e = Inl err \<longrightarrow>
      convert td (Str s) options = Inr s) \<and>
   (\<forall>s. s \<noteq> [] \<and> opt_excerpt options = NonString True \<longrightarrow>
      convert td (Str s) options = Inr s)"
proof (intro conjI allI impI)
  show "\<exists>r. convert td html options = Inr r" by (rule convert_returns)
next
  fix s :: string and err
  assume "s \<noteq> [] \<and> td s = Inl err"
  then show "convert td (Str s) options = Inr s"
    by (simp add: convert_nonempty convert_try_def)
next
  fix s :: string and e err
  assume a: "s \<noteq> [] \<and> opt_excerpt options = Str e \<and> trim e \<noteq> [] \<and> td e = Inl err"
  then obtain err' where "convert_try td s options = Inl err'"
    using convert_try_excerpt_throws[of options e td err s] by blast
  with a show "convert td (Str s) options = Inr s"
    by (simp add: convert_nonempty)
next
  fix s :: string
  assume a: "s \<noteq> [] \<and> opt_excerpt options = NonString True"
  then have "\<exists>err'. convert_try td s options = Inl err'"
    by (cases "td s") (simp_all add: convert_try_def Let_def excerpt_given_def)
  with a show "convert td (Str s) options = Inr s"
    by (auto simp: convert_nonempty)
qed

theorem convert_never_throws_witness:
  "convert (\<lambda>s. Inl (LibraryError ''parse'')) (Str ''<p'')
     \<lparr>opt_excerpt = Undefined, originalUrl = None, originalTitle = ''t''\<rparr> = Inr ''<p'' \<and>
   convert (\<lambda>s. if s = ''<p>x</p>'' then Inr ''x'' else Inl (LibraryError ''parse''))
     (Str ''<p>x</p>'')
     \<lparr>opt_excerpt = Str ''<e'', originalUrl = None, originalTitle = ''t''\<rparr> = Inr ''<p>x</p>'' \<and>
   convert (\<lambda>s. Inr s) (Str ''<p>x</p>'')
     \<lparr>opt_excerpt = NonString True, originalUrl = None, originalTitle = ''t''\<rparr> =
     Inr ''<p>x</p>''"
  (is "convert ?t1 ?h1 ?o1 = _ \<and> convert ?t2 ?h2 ?o2 = _ \<and> convert ?t3 ?h2 ?o3 = _")
proof (intro conjI)
  have t: "trim ''<e'' \<noteq> []" by code_simp
  show "convert ?t1 ?h1 ?o1 = Inr ''<p''"
    using convert_never_throws[of ?t1 Undefined ?o1, THEN conjunct2, THEN conjunct1,
        rule_format, of "''<p''" "LibraryError ''parse''"]
    by simp
  show "convert ?t2 ?h2 ?o2 = Inr ''<p>x</p>''"
    using convert_never_throws[of ?t2 Undefined ?o2, THEN conjunct2, THEN conjunct2,
        THEN conjunct1, rule_format, of "''<p>x</p>''" "''<e''" "LibraryError ''parse''"] t
    by simp
  show "convert ?t3 ?h2 ?o3 = Inr ''<p>x</p>''"
    using convert_never_throws[of ?t3 Undefined ?o3, THEN conjunct2, THEN conjunct2,
        THEN conjunct2, rule_format, of "''<p>x</p>''"]
    by simp
qed

text \<open>
  C10. For \<open>undefined\<close>, \<open>null\<close>, a value that is not a string and the empty string,
  \<open>convert\<close> returns the empty string, whatever the options: no excerpt and no footer.
  A conversion of a non-empty string that goes through is not empty: it ends with a blank
  line and the footer.
\<close>

theorem convert_not_a_string:
  "(html = Undefined \<or> html = Null \<or> (\<exists>t. html = NonString t) \<or> html = Str [] \<longrightarrow>
      convert td html options = Inr []) \<and>
   (\<forall>s rendered. s \<noteq> [] \<and> convert_try td s options = Inr rendered \<longrightarrow>
      convert td (Str s) options \<noteq> Inr [] \<and>
      (\<exists>p. convert td (Str s) options = Inr (p @ [nl, nl] @ generateFooter)))"
proof (intro conjI allI impI)
  assume "html = Undefined \<or> html = Null \<or> (\<exists>t. html = NonString t) \<or> html = Str []"
  then show "convert td html options = Inr []"
    by (auto simp: convert_def)
next
  fix s :: string and rendered
  assume a: "s \<noteq> [] \<and> convert_try td s options = Inr rendered"
  then have c: "convert td (Str s) options = Inr rendered"
    by (simp add: convert_nonempty)
  have "\<exists>p. rendered = p @ [nl, nl] @ generateFooter"
    using a by (auto simp: convert_try_def Let_def split: sum.splits option.splits if_splits)
  with c show "\<exists>p. convert td (Str s) options = Inr (p @ [nl, nl] @ generateFooter)"
    by simp
  with c show "convert td (Str s) options \<noteq> Inr []" by auto
qed

theorem convert_not_a_string_witness:
  "convert (\<lambda>s. Inr s) Null
     \<lparr>opt_excerpt = Str ''<p>e</p>'', originalUrl = None, originalTitle = ''t''\<rparr> = Inr [] \<and>
   convert (\<lambda>s. Inr s) (Str [])
     \<lparr>opt_excerpt = Str ''<p>e</p>'', originalUrl = None, originalTitle = ''t''\<rparr> = Inr [] \<and>
   convert (\<lambda>s. Inr s) (NonString True)
     \<lparr>opt_excerpt = Str ''<p>e</p>'', originalUrl = None, originalTitle = ''t''\<rparr> = Inr [] \<and>
   convert (\<lambda>s. Inr s) (Str ''x'')
     \<lparr>opt_excerpt = Undefined, originalUrl = None, originalTitle = ''t''\<rparr> \<noteq> Inr []"
  (is "convert ?td Null ?o1 = _ \<and> convert ?td (Str []) ?o1 = _ \<and>
       convert ?td (NonString True) ?o1 = _ \<and> convert ?td (Str ''x'') ?o2 \<noteq> _")
proof (intro conjI)
  show "convert ?td Null ?o1 = Inr []"
    using convert_not_a_string[of Null ?td ?o1] by simp
  show "convert ?td (Str []) ?o1 = Inr []"
    using convert_not_a_string[of "Str []" ?td ?o1] by simp
  show "convert ?td (NonString True) ?o1 = Inr []"
    using convert_not_a_string[of "NonString True" ?td ?o1] by blast
  have r: "convert_try ?td ''x'' ?o2 = Inr (''x'' @ [nl, nl] @ generateFooter)"
    by (simp add: convert_try_def excerpt_given_def Let_def fixBoldSpacing_def
        strip_leading_newlines_def replace_trailing_newlines_def nl_def)
  have n: "''x'' \<noteq> [] \<and> convert_try ?td ''x'' ?o2 = Inr (''x'' @ [nl, nl] @ generateFooter)"
    using r by simp
  show "convert ?td (Str ''x'') ?o2 \<noteq> Inr []"
    using convert_not_a_string[of Undefined ?td ?o2, THEN conjunct2, rule_format, OF n]
    by (rule conjunct1)
qed

section \<open>Properties of the batch\<close>

lemma shouldSyncArticle_snd: "snd (shouldSyncArticle D a h) = h"
  by (simp add: shouldSyncArticle_def Let_def split: property.splits)

lemma shouldSyncArticle_cong:
  "articles h (article_id a) = articles h' (article_id a) \<Longrightarrow>
   fst (shouldSyncArticle D a h) = fst (shouldSyncArticle D a h')"
  by (simp add: shouldSyncArticle_def get_property_def Let_def split: property.splits)

lemma publish_result_fst:
  "publish_result E h a =
     (if shouldSync (fst (shouldSyncArticle (parseDate E) a h))
      then Some (publish E a (fst (shouldSyncArticle (parseDate E) a h))) else None)"
  by (simp add: publish_result_def split: prod.splits)

lemma publish_result_cong:
  "articles h (article_id a) = articles h' (article_id a) \<Longrightarrow>
   publish_result E h a = publish_result E h' a"
  using shouldSyncArticle_cong[of h a h' "parseDate E"]
  by (simp add: publish_result_fst)

lemma syncArticles_body_cases:
  "syncArticles_body E a st =
     (case publish_result E (st_history st) a of
        None \<Rightarrow> st
      | Some (Inl err) \<Rightarrow> st\<lparr>errorCount := errorCount st + 1\<rparr>
      | Some (Inr q) \<Rightarrow>
          st\<lparr>st_history := (st_history st)\<lparr>articles := (articles (st_history st))(article_id a \<mapsto>
                 \<lparr>qiitaId = item_id q, rec_title = title a,
                  lastSyncedAt = now E (syncCount st),
                  microCMSUpdatedAt = microCMSUpdatedAt_of a\<rparr>)\<rparr>,
             syncCount := syncCount st + 1\<rparr>)"
  using shouldSyncArticle_snd[of "parseDate E" a "st_history st"]
  by (auto simp: syncArticles_body_def publish_result_def split: prod.splits sum.splits)

lemma syncArticles_body_other:
  "i \<noteq> article_id a \<Longrightarrow>
   articles (st_history (syncArticles_body E a st)) i = articles (st_history st) i"
  by (simp add: syncArticles_body_cases split: option.splits sum.splits)

lemma syncArticles_loop_other:
  "i \<notin> article_id ` set xs \<Longrightarrow>
   articles (st_history (syncArticles_loop E xs st)) i = articles (st_history st) i"
  by (induction xs arbitrary: st) (simp_all add: syncArticles_body_other)

lemma syncArticles_body_own:
  "articles (st_history (syncArticles_body E a st)) (article_id a) =
     (case publish_result E (st_history st) a of
        Some (Inr q) \<Rightarrow>
          Some \<lparr>qiitaId = item_id q, rec_title = title a,
                lastSyncedAt = now E (syncCount st),
                microCMSUpdatedAt = microCMSUpdatedAt_of a\<rparr>
      | _ \<Rightarrow> articles (st_history st) (article_id a))"
  by (simp add: syncArticles_body_cases split: option.splits sum.splits)

lemma syncArticles_body_errorCount:
  "errorCount (syncArticles_body E a st) =
     errorCount st + (if publish_fails E (st_history st) a then 1 else 0)"
  by (simp add: syncArticles_body_cases publish_fails_def split: option.splits sum.splits)

lemma syncArticles_body_syncCount:
  "syncCount (syncArticles_body E a st) =
     syncCount st + (if publish_succeeds E (st_history st) a then 1 else 0)"
  by (simp add: syncArticles_body_cases publish_succeeds_def split: option.splits sum.splits)

lemma agree_after_body:
  assumes "\<forall>b\<in>set (x # xs). articles (st_history st) (article_id b) = articles loaded (article_id b)"
    and "distinct (map article_id (x # xs))"
  shows "\<forall>b\<in>set xs. articles (st_history (syncArticles_body E x st)) (article_id b) =
           articles loaded (article_id b)"
proof
  fix b assume b: "b \<in> set xs"
  have "article_id x \<notin> set (map article_id xs)" using assms(2) by simp
  moreover have "article_id b \<in> set (map article_id xs)" using b by simp
  ultimately have "article_id b \<noteq> article_id x" by metis
  then show "articles (st_history (syncArticles_body E x st)) (article_id b) =
           articles loaded (article_id b)"
    using assms(1) b by (simp add: syncArticles_body_other)
qed

lemma syncArticles_loop_record:
  assumes "distinct (map article_id xs)"
    and "\<forall>b\<in>set xs. articles (st_history st) (article_id b) = articles loaded (article_id b)"
    and "a \<in> set xs"
  shows "case publish_result E loaded a of
           Some (Inr q) \<Rightarrow>
             \<exists>t. articles (st_history (syncArticles_loop E xs st)) (article_id a) =
               Some \<lparr>qiitaId = item_id q, rec_title = title a, lastSyncedAt = t,
                     microCMSUpdatedAt = microCMSUpdatedAt_of a\<rparr>
         | _ \<Rightarrow> articles (st_history (syncArticles_loop E xs st)) (article_id a) =
                 articles loaded (article_id a)"
  using assms
proof (induction xs arbitrary: st)
  case Nil
  then show ?case by simp
next
  case (Cons x xs)
  show ?case
  proof (cases "a = x")
    case True
    have n: "article_id a \<notin> article_id ` set xs" using Cons.prems(1) True by auto
    have p: "publish_result E (st_history st) a = publish_result E loaded a"
      using Cons.prems(2) True by (intro publish_result_cong) simp
    have l: "articles (st_history st) (article_id a) = articles loaded (article_id a)"
      using Cons.prems(2) True by simp
    have "articles (st_history (syncArticles_loop E (x # xs) st)) (article_id a) =
          articles (st_history (syncArticles_body E a st)) (article_id a)"
      using True syncArticles_loop_other[OF n] by simp
    then show ?thesis
      by (simp add: syncArticles_body_own p l split: option.splits sum.splits)
  next
    case False
    then have ain: "a \<in> set xs" using Cons.prems(3) by simp
    have d: "distinct (map article_id xs)" using Cons.prems(1) by simp
    have "case publish_result E loaded a of
           Some (Inr q) \<Rightarrow>
             \<exists>t. articles (st_history (syncArticles_loop E xs (syncArticles_body E x st)))
                   (article_id a) =
               Some \<lparr>qiitaId = item_id q, rec_title = title a, lastSyncedAt = t,
                     microCMSUpdatedAt = microCMSUpdatedAt_of a\<rparr>
         | _ \<Rightarrow> articles (st_history (syncArticles_loop E xs (syncArticles_body E x st)))
                 (article_id a) = articles loaded (article_id a)"
      by (rule Cons.IH[OF d agree_after_body[OF Cons.prems(2,1)] ain])
    then show ?thesis by (simp only: syncArticles_loop.simps)
  qed
qed

lemma syncArticles_loop_errorCount:
  assumes "distinct (map article_id xs)"
    and "\<forall>b\<in>set xs. articles (st_history st) (article_id b) = articles loaded (article_id b)"
  shows "errorCount (syncArticles_loop E xs st) =
           errorCount st + length (filter (publish_fails E loaded) xs)"
  using assms
proof (induction xs arbitrary: st)
  case Nil
  then show ?case by simp
next
  case (Cons x xs)
  have "publish_result E (st_history st) x = publish_result E loaded x"
    using Cons.prems(2) by (intro publish_result_cong) simp
  then have "publish_fails E (st_history st) x = publish_fails E loaded x"
    by (simp add: publish_fails_def)
  moreover have "distinct (map article_id xs)" using Cons.prems(1) by simp
  ultimately show ?case
    using Cons.IH[of "syncArticles_body E x st"] agree_after_body[OF Cons.prems(2,1)]
    by (simp add: syncArticles_body_errorCount)
qed

lemma syncArticles_loop_syncCount:
  assumes "distinct (map article_id xs)"
    and "\<forall>b\<in>set xs. articles (st_history st) (article_id b) = articles loaded (article_id b)"
  shows "syncCount (syncArticles_loop E xs st) =
           syncCount st + length (filter (publish_succeeds E loaded) xs)"
  using assms
proof (induction xs arbitrary: st)
  case Nil
  then show ?case by simp
next
  case (Cons x xs)
  have "publish_result E (st_history st) x = publish_result E loaded x"
    using Cons.prems(2) by (intro publish_result_cong) simp
  then have "publish_succeeds E (st_history st) x = publish_succeeds E loaded x"
    by (simp add: publish_succeeds_def)
  moreover have "distinct (map article_id xs)" using Cons.prems(1) by simp
  ultimately show ?case
    using Cons.IH[of "syncArticles_body E x st"] agree_after_body[OF Cons.prems(2,1)]
    by (simp add: syncArticles_body_syncCount)
qed

lemma syncArticles_loop_continues:
  "publish_fails E (st_history st) a \<Longrightarrow>
   syncArticles_loop E (a # rest) st =
     syncArticles_loop E rest (st\<lparr>errorCount := errorCount st + 1\<rparr>)"
  by (simp add: syncArticles_body_cases publish_fails_def split: option.splits sum.splits)

text \<open>
  C3. A run that gets the articles hands a history to \<open>saveSyncHistory\<close>. With the ids of
  the processed articles distinct, that history holds, for every article whose publish
  succeeded, one record with the id Qiita returned, the title and, as
  \<open>microCMSUpdatedAt\<close>, the article's \<open>updatedAt || revisedAt || publishedAt\<close>, which is
  its effective timestamp when it has one; for every other processed article, and for every
  other id, it holds what the loaded history held, so a failed publish writes no record.
  The error counter is the number of failed publishes, the exit status is 1 when there is
  one, and a failed publish only adds one to the error counter before the loop goes on with
  the next article.
\<close>

theorem syncArticles_run:
  assumes "getMicroCMSArticles E = Inr fetched"
    and "distinct (map article_id (take maxArticles fetched))"
  shows "\<exists>h. saved (syncArticles E loaded) = Some h \<and>
      (\<forall>a\<in>set (take maxArticles fetched).
         (case publish_result E loaded a of
            Some (Inr q) \<Rightarrow>
              \<exists>t. articles h (article_id a) =
                Some \<lparr>qiitaId = item_id q, rec_title = title a, lastSyncedAt = t,
                      microCMSUpdatedAt = microCMSUpdatedAt_of a\<rparr>
          | _ \<Rightarrow> articles h (article_id a) = articles loaded (article_id a)) \<and>
         (\<forall>e. effective_timestamp a = Some e \<longrightarrow> microCMSUpdatedAt_of a = Some e)) \<and>
      (\<forall>i. i \<notin> article_id ` set (take maxArticles fetched) \<longrightarrow>
         articles h i = articles loaded i) \<and>
      errors (syncArticles E loaded) =
        length (filter (publish_fails E loaded) (take maxArticles fetched)) \<and>
      synced (syncArticles E loaded) =
        length (filter (publish_succeeds E loaded) (take maxArticles fetched)) \<and>
      exit_status (syncArticles E loaded) =
        (if \<exists>a\<in>set (take maxArticles fetched). publish_fails E loaded a then 1 else 0) \<and>
      (\<forall>st a rest. publish_fails E (st_history st) a \<longrightarrow>
         syncArticles_loop E (a # rest) st =
           syncArticles_loop E rest (st\<lparr>errorCount := errorCount st + 1\<rparr>))"
proof -
  let ?xs = "take maxArticles fetched"
  let ?init = "\<lparr>st_history = loaded, syncCount = 0, errorCount = 0\<rparr>"
  let ?fin = "syncArticles_loop E ?xs ?init"
  let ?h = "(st_history ?fin)\<lparr>lastSyncTime := Some (now E (syncCount ?fin))\<rparr>"
  have agree: "\<forall>b\<in>set ?xs. articles (st_history ?init) (article_id b) =
      articles loaded (article_id b)" by simp
  have run: "syncArticles E loaded =
      \<lparr>saved = Some ?h, synced = syncCount ?fin, errors = errorCount ?fin,
       exit_status = (if 0 < errorCount ?fin then 1 else 0)\<rparr>"
    using assms(1) by (simp add: syncArticles_def Let_def)
  have ec: "errorCount ?fin = length (filter (publish_fails E loaded) ?xs)"
    using syncArticles_loop_errorCount[OF assms(2) agree, of E] by simp
  have sc: "syncCount ?fin = length (filter (publish_succeeds E loaded) ?xs)"
    using syncArticles_loop_syncCount[OF assms(2) agree, of E] by simp
  have ex: "(0 < errorCount ?fin) = (\<exists>a\<in>set ?xs. publish_fails E loaded a)"
    unfolding ec by (simp add: filter_empty_conv)
  have ah: "articles ?h = articles (st_history ?fin)" by simp
  have rec: "\<forall>a\<in>set ?xs.
         (case publish_result E loaded a of
            Some (Inr q) \<Rightarrow>
              \<exists>t. articles ?h (article_id a) =
                Some \<lparr>qiitaId = item_id q, rec_title = title a, lastSyncedAt = t,
                      microCMSUpdatedAt = microCMSUpdatedAt_of a\<rparr>
          | _ \<Rightarrow> articles ?h (article_id a) = articles loaded (article_id a)) \<and>
         (\<forall>e. effective_timestamp a = Some e \<longrightarrow> microCMSUpdatedAt_of a = Some e)"
  proof
    fix a assume a: "a \<in> set ?xs"
    have "case publish_result E loaded a of
           Some (Inr q) \<Rightarrow>
             \<exists>t. articles (st_history ?fin) (article_id a) =
               Some \<lparr>qiitaId = item_id q, rec_title = title a, lastSyncedAt = t,
                     microCMSUpdatedAt = microCMSUpdatedAt_of a\<rparr>
         | _ \<Rightarrow> articles (st_history ?fin) (article_id a) = articles loaded (article_id a)"
      by (rule syncArticles_loop_record[OF assms(2) agree a])
    then show "(case publish_result E loaded a of
            Some (Inr q) \<Rightarrow>
              \<exists>t. articles ?h (article_id a) =
                Some \<lparr>qiitaId = item_id q, rec_title = title a, lastSyncedAt = t,
                      microCMSUpdatedAt = microCMSUpdatedAt_of a\<rparr>
          | _ \<Rightarrow> articles ?h (article_id a) = articles loaded (article_id a)) \<and>
         (\<forall>e. effective_timestamp a = Some e \<longrightarrow> microCMSUpdatedAt_of a = Some e)"
      unfolding ah by (simp add: effective_timestamp_eq)
  qed
  have oth: "\<forall>i. i \<notin> article_id ` set ?xs \<longrightarrow> articles ?h i = articles loaded i"
    using syncArticles_loop_other[of _ ?xs E ?init] by simp
  have cont: "\<forall>st a rest. publish_fails E (st_history st) a \<longrightarrow>
         syncArticles_loop E (a # rest) st =
           syncArticles_loop E rest (st\<lparr>errorCount := errorCount st + 1\<rparr>)"
    using syncArticles_loop_continues by blast
  have s1: "saved (syncArticles E loaded) = Some ?h" by (simp add: run)
  have e1: "errors (syncArticles E loaded) = length (filter (publish_fails E loaded) ?xs)"
    by (simp add: run ec)
  have y1: "synced (syncArticles E loaded) = length (filter (publish_succeeds E loaded) ?xs)"
    by (simp add: run sc)
  have x1: "exit_status (syncArticles E loaded) =
        (if \<exists>a\<in>set ?xs. publish_fails E loaded a then 1 else 0)"
    by (simp add: run ex)
  show ?thesis
    by (rule exI[of _ ?h]) (intro conjI s1 rec oth e1 y1 x1 cont)
qed

lemma build_payload_returns:
  "\<exists>p. build_payload E a = Inr p \<and> payload_title p = title a"
proof -
  let ?o = "\<lparr>opt_excerpt = excerpt a,
             originalUrl = (if truthy (originalSiteUrl E)
                            then Some (the (originalSiteUrl E) @ ''/articles/'' @ article_id a)
                            else None),
             originalTitle = title a\<rparr>"
  obtain r where "convert (turndown E) (content a) ?o = Inr r"
    using convert_returns[of "turndown E" "content a" ?o] by blast
  then show ?thesis by (simp add: build_payload_def Let_def)
qed

theorem syncArticles_run_witness:
  "\<exists>h t. saved (syncArticles
       \<lparr>parseDate = (\<lambda>s. None), turndown = (\<lambda>s. Inr s),
        get_contents = Inr
          [\<lparr>article_id = ''bad'', title = ''Bad'', content = Str ''<p>b</p>'',
            excerpt = Undefined, category = CatUndefined, tags = None,
            publishedAt = Some ''2024-01-01'', updatedAt = None, revisedAt = None\<rparr>,
           \<lparr>article_id = ''good'', title = ''Good'', content = Str ''<p>g</p>'',
            excerpt = Undefined, category = CatUndefined, tags = None,
            publishedAt = Some ''2024-01-01'', updatedAt = Some ''2024-02-01'',
            revisedAt = None\<rparr>],
        post_item = (\<lambda>p. if payload_title p = ''Good'' then Inr \<lparr>item_id = ''q1''\<rparr>
                          else Inl (LibraryError ''403'')),
        patch_item = (\<lambda>q p. Inl (LibraryError ''404'')),
        now = (\<lambda>k. ''2024-03-01''), originalSiteUrl = None\<rparr>
       \<lparr>lastSyncTime = None, articles = Map.empty\<rparr>) = Some h \<and>
     articles h ''good'' =
       Some \<lparr>qiitaId = ''q1'', rec_title = ''Good'', lastSyncedAt = t,
             microCMSUpdatedAt = Some ''2024-02-01''\<rparr> \<and>
     articles h ''bad'' = None \<and>
     exit_status (syncArticles
       \<lparr>parseDate = (\<lambda>s. None), turndown = (\<lambda>s. Inr s),
        get_contents = Inr
          [\<lparr>article_id = ''bad'', title = ''Bad'', content = Str ''<p>b</p>'',
            excerpt = Undefined, category = CatUndefined, tags = None,
            publishedAt = Some ''2024-01-01'', updatedAt = None, revisedAt = None\<rparr>,
           \<lparr>article_id = ''good'', title = ''Good'', content = Str ''<p>g</p>'',
            excerpt = Undefined, category = CatUndefined, tags = None,
            publishedAt = Some ''2024-01-01'', updatedAt = Some ''2024-02-01'',
            revisedAt = None\<rparr>],
        post_item = (\<lambda>p. if payload_title p = ''Good'' then Inr \<lparr>item_id = ''q1''\<rparr>
                          else Inl (LibraryError ''403'')),
        patch_item = (\<lambda>q p. Inl (LibraryError ''404'')),
        now = (\<lambda>k. ''2024-03-01''), originalSiteUrl = None\<rparr>
       \<lparr>lastSyncTime = None, articles = Map.empty\<rparr>) = 1"
  (is "\<exists>h t. saved (syncArticles ?E ?L) = Some h \<and> articles h ''good'' = Some (?R t) \<and>
        articles h ''bad'' = None \<and> exit_status (syncArticles ?E ?L) = 1")
proof -
  let ?bad = "\<lparr>article_id = ''bad'', title = ''Bad'', content = Str ''<p>b</p>'',
            excerpt = Undefined, category = CatUndefined, tags = None,
            publishedAt = Some ''2024-01-01'', updatedAt = None, revisedAt = None\<rparr>"
  let ?good = "\<lparr>article_id = ''good'', title = ''Good'', content = Str ''<p>g</p>'',
            excerpt = Undefined, category = CatUndefined, tags = None,
            publishedAt = Some ''2024-01-01'', updatedAt = Some ''2024-02-01'',
            revisedAt = None\<rparr>"
  have g: "getMicroCMSArticles ?E = Inr [?bad, ?good]"
    by (simp add: getMicroCMSArticles_def)
  have d: "distinct (map article_id (take maxArticles [?bad, ?good]))"
    by (simp add: maxArticles_def)
  have t: "take maxArticles [?bad, ?good] = [?bad, ?good]"
    by (simp add: maxArticles_def)
  obtain rb where rb: "build_payload ?E ?bad = Inr rb" "payload_title rb = ''Bad''"
    using build_payload_returns[of ?E ?bad] by auto
  obtain rg where rg: "build_payload ?E ?good = Inr rg" "payload_title rg = ''Good''"
    using build_payload_returns[of ?E ?good] by auto
  have pb: "publish_result ?E ?L ?bad = Some (Inl (LibraryError ''403''))"
    using rb by (simp add: publish_result_def shouldSyncArticle_def get_property_def
        object_prototype_members_def publish_def createQiitaArticle_def)
  have pg: "publish_result ?E ?L ?good = Some (Inr \<lparr>item_id = ''q1''\<rparr>)"
    using rg by (simp add: publish_result_def shouldSyncArticle_def get_property_def
        object_prototype_members_def publish_def createQiitaArticle_def)
  have fb: "publish_fails ?E ?L ?bad" by (simp add: publish_fails_def pb)
  obtain h where h: "saved (syncArticles ?E ?L) = Some h"
    and r: "\<forall>a\<in>set [?bad, ?good].
         (case publish_result ?E ?L a of
            Some (Inr q) \<Rightarrow>
              \<exists>t. articles h (article_id a) =
                Some \<lparr>qiitaId = item_id q, rec_title = title a, lastSyncedAt = t,
                      microCMSUpdatedAt = microCMSUpdatedAt_of a\<rparr>
          | _ \<Rightarrow> articles h (article_id a) = articles ?L (article_id a)) \<and>
         (\<forall>e. effective_timestamp a = Some e \<longrightarrow> microCMSUpdatedAt_of a = Some e)"
    and x: "exit_status (syncArticles ?E ?L) =
        (if \<exists>a\<in>set [?bad, ?good]. publish_fails ?E ?L a then 1 else 0)"
    using syncArticles_run[OF g d, of ?L] unfolding t by blast
  have "articles h ''bad'' = None"
    using r pb by simp
  moreover obtain t where "articles h ''good'' = Some (?R t)"
    using r pg by (auto simp: microCMSUpdatedAt_of_def js_or_def truthy_def)
  moreover have "exit_status (syncArticles ?E ?L) = 1"
    using x fb by simp
  ultimately show ?thesis using h by blast
qed

end
